theory Spec2Isabelle
  imports Main "HOL-Library.Multiset"
begin

section \<open>Python values used by McaStackView\<close>

text \<open>Exceptions of the source are values: every function that can raise returns
  \<open>error + 'a\<close>, with \<open>Inl\<close> the exception.\<close>

datatype error = ValueError | TypeError | AttributeError | IndexError | ZeroDivisionError

text \<open>A Python \<open>slice(start, stop, step)\<close>; \<open>None\<close> is \<open>None\<close>.\<close>

datatype slice = Slice (slice_start: "int option") (slice_stop: "int option") (slice_step: "int option")

text \<open>\<open>slice.indices(n)\<close> of the Python language (the interpreter's
  \<open>PySlice\<close> index adjustment): a zero step and a negative length raise
  \<open>ValueError\<close>; a negative bound counts from the end; bounds are clipped to
  \<open>[0, n]\<close> for a positive step and to \<open>[-1, n - 1]\<close> for a negative one.\<close>

definition adjust_bound :: "int \<Rightarrow> int \<Rightarrow> int \<Rightarrow> int \<Rightarrow> int" where
  "adjust_bound lower upper n i =
     (if i < 0 then (if i + n < lower then lower else i + n)
      else (if i > upper then upper else i))"

definition indices :: "slice \<Rightarrow> int \<Rightarrow> error + (int \<times> int \<times> int)" where
  "indices slc n =
     (let st = (case slice_step slc of None \<Rightarrow> 1 | Some s \<Rightarrow> s) in
      if st = 0 then Inl ValueError
      else if n < 0 then Inl ValueError
      else
        let lower = (if st < 0 then -1 else 0);
            upper = (if st < 0 then n - 1 else n);
            a = (case slice_start slc of
                   None \<Rightarrow> (if st < 0 then upper else lower)
                 | Some i \<Rightarrow> adjust_bound lower upper n i);
            b = (case slice_stop slc of
                   None \<Rightarrow> (if st < 0 then lower else upper)
                 | Some i \<Rightarrow> adjust_bound lower upper n i)
        in Inr (a, b, st))"

text \<open>\<open>list(range(start, stop, step))\<close> for a nonzero step, element by element.\<close>

function py_range :: "int \<Rightarrow> int \<Rightarrow> int \<Rightarrow> int list" where
  "py_range a b s =
     (if (0 < s \<and> a < b) \<or> (s < 0 \<and> b < a) then a # py_range (a + s) b s else [])"
  by pat_completeness auto
termination
  by (relation "measure (\<lambda>(a, b, s). nat (if 0 < s then b - a else a - b))") auto

declare py_range.simps [simp del]

section \<open>Slice algebra\<close>

definition sliceLen :: "slice \<Rightarrow> int \<Rightarrow> error + int" where
  "sliceLen slc n =
     (case indices slc n of
        Inl e \<Rightarrow> Inl e
      | Inr (a, b, st) \<Rightarrow>
          let one = (if st < 0 then -1 else 1)
          in Inr (max 0 ((b - a + st - one) div st)))"

definition sliceReverse :: "slice \<Rightarrow> int \<Rightarrow> error + slice" where
  "sliceReverse slc n =
     (case indices slc n of
        Inl e \<Rightarrow> Inl e
      | Inr (a, b, st) \<Rightarrow>
          let one = (if st < 0 then 1 else -1);
              b' = (b - a + one) div st * st + a;
              a' = a + one
          in Inr (Slice (Some b') (if a' = -1 then None else Some a') (Some (- st))))"

text \<open>\<open>xs[slc]\<close> on a list (or a one-dimensional array): the elements at the
  positions \<open>range(*slc.indices(len(xs)))\<close>, which are all inside the list.\<close>

definition getslice :: "'a list \<Rightarrow> slice \<Rightarrow> error + 'a list" where
  "getslice xs slc =
     (case indices slc (int (length xs)) of
        Inl e \<Rightarrow> Inl e
      | Inr (a, b, st) \<Rightarrow> Inr (map (\<lambda>i. xs ! nat i) (py_range a b st)))"

text \<open>\<open>list(range(n))\<close>.\<close>

definition range_list :: "int \<Rightarrow> int list" where
  "range_list n = py_range 0 n 1"

section \<open>Python helpers\<close>

text \<open>Sequencing of computations that may raise: the first exception wins.\<close>

definition ebind :: "error + 'a \<Rightarrow> ('a \<Rightarrow> error + 'b) \<Rightarrow> error + 'b" where
  "ebind m f = (case m of Inl e \<Rightarrow> Inl e | Inr x \<Rightarrow> f x)"

fun mapM :: "('a \<Rightarrow> error + 'b) \<Rightarrow> 'a list \<Rightarrow> error + 'b list" where
  "mapM f [] = Inr []"
| "mapM f (x # xs) = ebind (f x) (\<lambda>y. ebind (mapM f xs) (\<lambda>ys. Inr (y # ys)))"

text \<open>\<open>xs[i]\<close> and \<open>xs[i] = v\<close> on a list or tuple: a negative index counts from
  the end, an index out of range raises \<open>IndexError\<close>.\<close>

definition py_getitem :: "'a list \<Rightarrow> int \<Rightarrow> error + 'a" where
  "py_getitem xs i =
     (let n = int (length xs); j = (if i < 0 then i + n else i)
      in if 0 \<le> j \<and> j < n then Inr (xs ! nat j) else Inl IndexError)"

definition py_setitem :: "'a list \<Rightarrow> int \<Rightarrow> 'a \<Rightarrow> error + 'a list" where
  "py_setitem xs i v =
     (let n = int (length xs); j = (if i < 0 then i + n else i)
      in if 0 \<le> j \<and> j < n then Inr (xs[nat j := v]) else Inl IndexError)"

text \<open>\<open>a // b\<close> and \<open>a % b\<close> on Python integers: floor division, the remainder
  has the sign of the divisor, a zero divisor raises.\<close>

definition py_floordiv :: "int \<Rightarrow> int \<Rightarrow> error + int" where
  "py_floordiv a b = (if b = 0 then Inl ZeroDivisionError else Inr (a div b))"

definition py_mod :: "int \<Rightarrow> int \<Rightarrow> error + int" where
  "py_mod a b = (if b = 0 then Inl ZeroDivisionError else Inr (a mod b))"

text \<open>\<open>int(bool(x))\<close>.\<close>

definition int_bool :: "int \<Rightarrow> int" where
  "int_bool x = (if x \<noteq> 0 then 1 else 0)"

section \<open>Chunk planner\<close>

text \<open>\<open>list(chunkIndexGen(start, stop, step))\<close>. The arguments are integers here, so
  the three \<open>TypeError\<close> checks pass; \<open>range\<close> raises \<open>ValueError\<close> on a zero
  step.\<close>

definition chunkIndexGen :: "int \<Rightarrow> int \<Rightarrow> int option \<Rightarrow> error + (slice \<times> int) list" where
  "chunkIndexGen start stop step0 =
     (let step = (case step0 of None \<Rightarrow> 1 | Some s \<Rightarrow> s) in
      if step = 0 then Inl ValueError
      else Inr (map (\<lambda>a.
             let b = (if step < 0 then max (a + step) stop else min (a + step) stop);
                 n = \<bar>b - a\<bar>
             in (Slice (Some a) (if b = -1 then None else Some b)
                   (Some (if step < 0 then -1 else 1)), n))
           (py_range start stop step)))"

definition possitive_index :: "int \<Rightarrow> int \<Rightarrow> error + int" where
  "possitive_index i n =
     (if i < 0 then ebind (py_floordiv (- i) n) (\<lambda>q. Inr (i + max q 1 * n))
      else Inr i)"

text \<open>\<open>chunkIndexParameters\<close>: the keyword arguments are \<open>None\<close> when absent.\<close>

definition chunkIndexParameters ::
  "int list \<Rightarrow> int \<Rightarrow> int list option \<Rightarrow> int list option \<Rightarrow> slice list option \<Rightarrow> string
     \<Rightarrow> error + (int \<times> int list \<times> int list \<times> slice list)" where
  "chunkIndexParameters shape nChunksMax chunkAxes axesOrder chunkAxesSlice defaultOrder =
     (let ndim = int (length shape) in
      ebind (mapM (\<lambda>i. possitive_index i ndim) (case chunkAxes of None \<Rightarrow> [] | Some c \<Rightarrow> c))
        (\<lambda>chunkAxes'.
      ebind (case chunkAxesSlice of
               None \<Rightarrow> Inr (replicate (length chunkAxes') (Slice None None None))
             | Some sl \<Rightarrow> if length chunkAxes' \<noteq> length sl then Inl ValueError else Inr sl)
        (\<lambda>chunkAxesSlice'.
      let aAxesOrder0 = map int [0..<length shape];
          aAxesOrder1 = (if defaultOrder = ''C'' then rev aAxesOrder0 else aAxesOrder0);
          aAxesOrder = filter (\<lambda>i. i \<notin> set chunkAxes') aAxesOrder1
      in
      ebind (case axesOrder of
               None \<Rightarrow> Inr aAxesOrder
             | Some ao \<Rightarrow>
                 ebind (mapM (\<lambda>i. possitive_index i ndim) ao) (\<lambda>ao'.
                   if sort ao' \<noteq> sort aAxesOrder then Inl ValueError else Inr ao'))
        (\<lambda>axesOrder'.
      Inr (max nChunksMax 1, chunkAxes', axesOrder', chunkAxesSlice')))))"

text \<open>The first loop of \<open>fullChunkIndex\<close>: one single-entry list per chunk axis.\<close>

fun chunkAxesIndex :: "int list \<Rightarrow> (int \<times> slice) list \<Rightarrow> error + (slice \<times> int) list list" where
  "chunkAxesIndex shape [] = Inr []"
| "chunkAxesIndex shape ((axis, idx) # rest) =
     ebind (py_getitem shape axis) (\<lambda>nAxis.
     ebind (sliceLen idx nAxis) (\<lambda>l.
     ebind (chunkAxesIndex shape rest) (\<lambda>r. Inr ([(idx, l)] # r))))"

text \<open>The body of the second loop, for one order axis of size \<open>nAxis\<close>: the list of
  pieces of the axis and the new value of \<open>nBuffer\<close>.\<close>

definition splitAxis :: "int \<Rightarrow> int \<Rightarrow> int \<Rightarrow> int \<Rightarrow> error + ((slice \<times> int) list \<times> int)" where
  "splitAxis nChunksMax nItems nBuffer nAxis =
     (let nItemsNew = nItems * nAxis in
      if nItemsNew \<le> nChunksMax then Inr ([(Slice None None None, nAxis)], nBuffer * nAxis)
      else if nItems > nChunksMax then
        ebind (chunkIndexGen 0 nAxis (Some 1)) (\<lambda>idxAxis. Inr (idxAxis, nBuffer))
      else
        ebind (py_floordiv nChunksMax nItems) (\<lambda>step.
        ebind (py_floordiv nAxis step) (\<lambda>q.
        ebind (py_mod nAxis step) (\<lambda>r.
        let n = q + int_bool r in
        ebind (py_floordiv nAxis n) (\<lambda>q'.
        ebind (py_mod nAxis n) (\<lambda>r'.
        let step' = q' + int_bool r' in
        ebind (chunkIndexGen 0 nAxis (Some step')) (\<lambda>idxAxis.
        Inr (idxAxis, nBuffer * step'))))))))"

text \<open>The second loop, over \<open>axesOrder\<close>, with its state
  \<open>(nItems, nBuffer, chunkIndex2)\<close>.\<close>

fun orderAxesIndex ::
  "int list \<Rightarrow> int \<Rightarrow> int list \<Rightarrow> int \<times> int \<times> (slice \<times> int) list list
     \<Rightarrow> error + (int \<times> int \<times> (slice \<times> int) list list)" where
  "orderAxesIndex shape nChunksMax [] state = Inr state"
| "orderAxesIndex shape nChunksMax (axis # rest) (nItems, nBuffer, chunkIndex2) =
     ebind (py_getitem shape axis) (\<lambda>nAxis.
     ebind (splitAxis nChunksMax nItems nBuffer nAxis) (\<lambda>(idxAxis, nBuffer').
     orderAxesIndex shape nChunksMax rest (nItems * nAxis, nBuffer', chunkIndex2 @ [idxAxis])))"

definition fullChunkIndex ::
  "int list \<Rightarrow> int \<Rightarrow> int list option \<Rightarrow> int list option \<Rightarrow> slice list option \<Rightarrow> string
     \<Rightarrow> error + ((slice \<times> int) list list \<times> int list \<times> int list \<times> int)" where
  "fullChunkIndex shape nChunksMax0 chunkAxes0 axesOrder0 chunkAxesSlice0 defaultOrder =
     ebind (chunkIndexParameters shape nChunksMax0 chunkAxes0 axesOrder0 chunkAxesSlice0 defaultOrder)
       (\<lambda>(nChunksMax, chunkAxes, axesOrder, chunkAxesSlice).
     ebind (chunkAxesIndex shape (zip chunkAxes chunkAxesSlice)) (\<lambda>chunkIndex1.
     ebind (orderAxesIndex shape nChunksMax axesOrder (1, 1, [])) (\<lambda>(nItems, nBuffer, chunkIndex2).
     Inr (chunkIndex1 @ rev chunkIndex2, chunkAxes, axesOrder, nBuffer))))"

section \<open>Chunk enumerator\<close>

text \<open>An entry of a full-dimensional index: \<open>None\<close>, a slice, or a list of integers.\<close>

datatype index = NoneIdx | SliceIdx slice | ListIdx "int list"

type_synonym chunk = "index list \<times> int option list \<times> int"

text \<open>The inner loop of \<open>chunkIndexProduct\<close> over \<open>zip(axes, idxChunk)\<close>.\<close>

fun assignAxes ::
  "int list \<Rightarrow> (int \<times> slice \<times> int) list \<Rightarrow> chunk \<Rightarrow> error + chunk" where
  "assignAxes axesOrder [] state = Inr state"
| "assignAxes axesOrder ((axis, idx, n) # rest) (idxData, chunkShape, nChunks) =
     ebind (py_setitem idxData axis (SliceIdx idx)) (\<lambda>idxData'.
     ebind (py_setitem chunkShape axis (Some n)) (\<lambda>chunkShape'.
     assignAxes axesOrder rest
       (idxData', chunkShape', if axis \<in> set axesOrder then nChunks * n else nChunks)))"

text \<open>The outer loop: \<open>idxData\<close> and \<open>chunkShape\<close> are lists that live across the
  iterations, each yield copies them into tuples.\<close>

fun productLoop ::
  "int list \<Rightarrow> int list \<Rightarrow> (slice \<times> int) list list \<Rightarrow> index list \<times> int option list
     \<Rightarrow> error + chunk list" where
  "productLoop axesOrder axes [] state = Inr []"
| "productLoop axesOrder axes (idxChunk # rest) (idxData, chunkShape) =
     ebind (assignAxes axesOrder (zip axes idxChunk) (idxData, chunkShape, 1))
       (\<lambda>(idxData', chunkShape', nChunks).
     ebind (productLoop axesOrder axes rest (idxData', chunkShape')) (\<lambda>chunks.
     Inr ((idxData', chunkShape', nChunks) # chunks)))"

text \<open>\<open>list(chunkIndexProduct(chunkIndex, chunkAxes, axesOrder))\<close>;
  \<open>itertools.product\<close> is \<open>product_lists\<close>: the last list varies the fastest.\<close>

definition chunkIndexProduct ::
  "(slice \<times> int) list list \<Rightarrow> int list \<Rightarrow> int list \<Rightarrow> error + chunk list" where
  "chunkIndexProduct chunkIndex chunkAxes axesOrder =
     (let axes = chunkAxes @ rev axesOrder;
          ndim = length axes
      in productLoop axesOrder axes (product_lists chunkIndex)
           (replicate ndim NoneIdx, replicate ndim None))"

section \<open>Masked chunk planner\<close>

text \<open>A mask is a boolean array (its shape and its elements in row-major order) or a
  tuple of integer lists, one per order axis. Only the array has the attribute
  \<open>ndim\<close>; \<open>nonzero()\<close> gives, per dimension, the coordinates of the true elements
  in row-major order (a zero-dimensional array counts as one-dimensional).\<close>

datatype mask = ArrayMask "nat list" "bool list" | ListMask "int list list"

fun mask_ndim :: "mask \<Rightarrow> error + nat" where
  "mask_ndim (ArrayMask mshape mdata) = Inr (length mshape)"
| "mask_ndim (ListMask ls) = Inl AttributeError"

fun unravel_index :: "nat list \<Rightarrow> nat \<Rightarrow> nat list" where
  "unravel_index [] k = []"
| "unravel_index (d # ds) k = (k div prod_list ds) # unravel_index ds (k mod prod_list ds)"

definition nonzero :: "nat list \<Rightarrow> bool list \<Rightarrow> int list list" where
  "nonzero mshape mdata =
     (let mshape' = (if mshape = [] then [1] else mshape);
          coords = map (unravel_index mshape') (filter (\<lambda>k. mdata ! k) [0..<length mdata])
      in map (\<lambda>d. map (\<lambda>c. int (c ! d)) coords) [0..<length mshape'])"

fun mask_index :: "mask \<Rightarrow> int list list" where
  "mask_index (ListMask ls) = ls"
| "mask_index (ArrayMask mshape mdata) = nonzero mshape mdata"

text \<open>\<open>numpy.diff(sorted(axes)) == 1\<close> everywhere.\<close>

fun consecutive :: "int list \<Rightarrow> bool" where
  "consecutive (x # y # ys) = (y - x = 1 \<and> consecutive (y # ys))"
| "consecutive xs = True"

definition intListIndexAxis :: "int list \<Rightarrow> int list \<Rightarrow> int option" where
  "intListIndexAxis shape axes =
     (let nLst = length axes in
      if nLst = 0 then None
      else if nLst = 1 then Some (hd axes)
      else if consecutive (sort axes) then Some (Min (set axes))
      else Some 0)"

text \<open>\<open>xs.insert(i, v)\<close>: the position is clipped to the list.\<close>

definition py_insert :: "'a list \<Rightarrow> int \<Rightarrow> 'a \<Rightarrow> 'a list" where
  "py_insert xs i v =
     (let n = int (length xs);
          j = (if i < 0 then max 0 (i + n) else min i n)
      in take (nat j) xs @ v # drop (nat j) xs)"

text \<open>The loop over the chunk axes: the index and the shape of the chunk axes.\<close>

fun chunkAxesAssign ::
  "int list \<Rightarrow> (int \<times> slice) list \<Rightarrow> index list \<times> int option list
     \<Rightarrow> error + (index list \<times> int option list)" where
  "chunkAxesAssign shape [] state = Inr state"
| "chunkAxesAssign shape ((axis, idx) # rest) (idxAxis, chunkShape) =
     ebind (py_getitem shape axis) (\<lambda>nAxis.
     ebind (py_setitem idxAxis axis (SliceIdx idx)) (\<lambda>idxAxis'.
     ebind (sliceLen idx nAxis) (\<lambda>l.
     ebind (py_setitem chunkShape axis (Some l)) (\<lambda>chunkShape'.
     chunkAxesAssign shape rest (idxAxis', chunkShape')))))"

text \<open>The inner loop over \<open>zip(axesOrder, maskIndex)\<close>: \<open>idxAxis[axis] = ind[idx]\<close>.\<close>

fun maskAssign :: "(int \<times> int list) list \<Rightarrow> slice \<Rightarrow> index list \<Rightarrow> error + index list" where
  "maskAssign [] idx idxAxis = Inr idxAxis"
| "maskAssign ((axis, ind) # rest) idx idxAxis =
     ebind (getslice ind idx) (\<lambda>sub.
     ebind (py_setitem idxAxis axis (ListIdx sub)) (\<lambda>idxAxis'.
     maskAssign rest idx idxAxis'))"

text \<open>The loop over \<open>enumerate(chunkIndexGen(0, nAxis, nChunksMax))\<close>, with the lists
  \<open>idxAxis\<close>, \<open>chunkShape\<close> and \<open>chunkIndex\<close> as its state.\<close>

fun maskLoop ::
  "int list \<Rightarrow> int list list \<Rightarrow> int option \<Rightarrow> (nat \<times> slice \<times> int) list
     \<Rightarrow> index list \<times> int option list \<times> chunk option list \<Rightarrow> error + chunk option list" where
  "maskLoop axesOrder maskIndex lstAxis [] (idxAxis, chunkShape, chunkIndex) = Inr chunkIndex"
| "maskLoop axesOrder maskIndex lstAxis ((i, idx, nidx) # rest) (idxAxis, chunkShape, chunkIndex) =
     ebind (maskAssign (zip axesOrder maskIndex) idx idxAxis) (\<lambda>idxAxis'.
     ebind (case lstAxis of
              None \<Rightarrow> Inl TypeError
            | Some l \<Rightarrow> py_setitem chunkShape l (Some nidx)) (\<lambda>chunkShape'.
     ebind (py_setitem chunkIndex (int i) (Some (idxAxis', chunkShape', nidx))) (\<lambda>chunkIndex'.
     maskLoop axesOrder maskIndex lstAxis rest (idxAxis', chunkShape', chunkIndex'))))"

text \<open>\<open>maskedChunkIndex\<close>. The list it returns is allocated as \<open>[None]*nChunks\<close> and
  filled in by position, so its entries are optional chunks.\<close>

definition maskedChunkIndex ::
  "int list \<Rightarrow> int \<Rightarrow> mask option \<Rightarrow> int list option \<Rightarrow> int list option \<Rightarrow> slice list option
     \<Rightarrow> string \<Rightarrow> error + (chunk option list \<times> int list \<times> int list \<times> int)" where
  "maskedChunkIndex shape nChunksMax0 mask0 chunkAxes0 axesOrder0 chunkAxesSlice0 defaultOrder =
     (case mask0 of
        None \<Rightarrow>
          ebind (fullChunkIndex shape nChunksMax0 chunkAxes0 axesOrder0 chunkAxesSlice0 defaultOrder)
            (\<lambda>(chunkIndex, chunkAxes, axesOrder, nBuffer).
          ebind (chunkIndexProduct chunkIndex chunkAxes axesOrder) (\<lambda>chunks.
          Inr (map Some chunks, chunkAxes, axesOrder, nBuffer)))
      | Some msk \<Rightarrow>
          ebind (chunkIndexParameters shape nChunksMax0 chunkAxes0 axesOrder0 chunkAxesSlice0 ''F'')
            (\<lambda>(nChunksMax, chunkAxes, axesOrder, chunkAxesSlice).
          ebind (mask_ndim msk) (\<lambda>ndimMask.
          if length axesOrder \<noteq> ndimMask then Inl ValueError
          else
            ebind (chunkAxesAssign shape (zip chunkAxes chunkAxesSlice)
                     (replicate (length shape) (SliceIdx (Slice None None None)), map Some shape))
              (\<lambda>(idxAxis, chunkShape0).
            let chunkShape1 = map snd (filter (\<lambda>(i, s). int i \<notin> set axesOrder)
                                        (zip [0..<length chunkShape0] chunkShape0));
                lstAxis = intListIndexAxis shape axesOrder;
                chunkShape = (case lstAxis of None \<Rightarrow> chunkShape1
                              | Some l \<Rightarrow> py_insert chunkShape1 l None);
                maskIndex = mask_index msk
            in
            ebind (py_getitem maskIndex 0) (\<lambda>ind0.
            let nAxis = int (length ind0) in
            ebind (py_floordiv nAxis nChunksMax) (\<lambda>q.
            ebind (py_mod nAxis nChunksMax) (\<lambda>r.
            let nChunks = q + int_bool r in
            ebind (chunkIndexGen 0 nAxis (Some nChunksMax)) (\<lambda>gen.
            ebind (maskLoop axesOrder maskIndex lstAxis (zip [0..<length gen] gen)
                     (idxAxis, chunkShape, replicate (nat nChunks) None)) (\<lambda>chunkIndex.
            Inr (chunkIndex, chunkAxes, axesOrder, nChunksMax))))))))))"

section \<open>What a chunk selects\<close>

text \<open>The coordinates that one entry of an index selects along an axis of size \<open>n\<close>:
  \<open>list(range(n))[idx]\<close>.\<close>

fun indexRows :: "index \<Rightarrow> int \<Rightarrow> int list" where
  "indexRows (SliceIdx slc) n =
     (case indices slc n of Inl e \<Rightarrow> [] | Inr (a, b, st) \<Rightarrow> py_range a b st)"
| "indexRows (ListIdx l) n = l"
| "indexRows NoneIdx n = []"

text \<open>The coordinate tuples over the order axes (listed in the order of \<open>axes\<close>) that a
  dense chunk selects: the product of what its index selects along each of them.\<close>

definition chunkRows :: "int list \<Rightarrow> int list \<Rightarrow> chunk \<Rightarrow> int list list" where
  "chunkRows shape axes c =
     product_lists (map (\<lambda>ax. indexRows (fst c ! nat ax) (shape ! nat ax)) axes)"

definition chunkCount :: "chunk \<Rightarrow> int" where
  "chunkCount c = snd (snd c)"

text \<open>The pieces of one axis of size \<open>n\<close>: together they select \<open>0, \<dots>, n - 1\<close> in
  order, each carries its own length, and none is longer than \<open>f\<close>.\<close>

definition piecesOK :: "int \<Rightarrow> int \<Rightarrow> (slice \<times> int) list \<Rightarrow> bool" where
  "piecesOK n f pieces \<longleftrightarrow>
     concat (map (\<lambda>(slc, l). indexRows (SliceIdx slc) n) pieces) = range_list n
     \<and> (\<forall>(slc, l) \<in> set pieces. int (length (indexRows (SliceIdx slc) n)) = l \<and> l \<le> f)"

section \<open>Memory budgeting\<close>

text \<open>\<open>xs.pop(i)\<close>, as far as the list that is left: a negative index counts from the
  end, an index out of range raises \<open>IndexError\<close>.\<close>

definition py_pop :: "'a list \<Rightarrow> int \<Rightarrow> error + 'a list" where
  "py_pop xs i =
     (let n = int (length xs); j = (if i < 0 then i + n else i)
      in if 0 \<le> j \<and> j < n then Inr (take (nat j) xs @ drop (Suc (nat j)) xs)
         else Inl IndexError)"

text \<open>The argument \<open>axis\<close> of \<open>chunks_in_memory\<close>: an integer, or a tuple or list of
  integers.\<close>

datatype axis_arg = AxisInt int | AxisSeq "int list"

text \<open>The loop \<open>for ax in axis: shape_slice.pop(ax)\<close>.\<close>

fun pop_axes :: "int list \<Rightarrow> int list \<Rightarrow> error + int list" where
  "pop_axes shape_slice [] = Inr shape_slice"
| "pop_axes shape_slice (ax # rest) = ebind (py_pop shape_slice ax) (\<lambda>s. pop_axes s rest)"

text \<open>A product or sum of 64-bit integers of numpy wraps around.\<close>

definition wrap64 :: "int \<Rightarrow> int" where
  "wrap64 x = (x + 2 ^ 63) mod 2 ^ 64 - 2 ^ 63"

text \<open>\<open>chunks_in_memory(shape, dtype, axis, margin, maximal)\<close>. What the function
  takes from its environment is an argument here: \<open>nbytes_mem\<close> is the result of the
  memory query (\<open>None\<close> when the memory is unknown), \<open>itemsize\<close> the size of an element
  of \<open>dtype\<close>, and \<open>quot nbytes_mem nbytes_chunk\<close> the value of
  \<open>int((nbytes_mem*margin)/nbytes_chunk)\<close>, which is computed in floating point and may
  raise. \<open>if maximal:\<close> holds for an integer other than zero.\<close>

definition chunks_in_memory ::
  "int option \<Rightarrow> (int \<Rightarrow> int \<Rightarrow> error + int) \<Rightarrow> int list \<Rightarrow> int \<Rightarrow> axis_arg \<Rightarrow> int option
     \<Rightarrow> error + int option" where
  "chunks_in_memory nbytes_mem0 quot shape itemsize axis maximal =
     (case nbytes_mem0 of
        None \<Rightarrow> Inr maximal
      | Some nbytes_mem \<Rightarrow>
          ebind (case axis of
                   AxisSeq axs \<Rightarrow> pop_axes shape axs
                 | AxisInt ax \<Rightarrow> py_pop shape ax) (\<lambda>shape_slice.
          if shape_slice = [] then Inl ValueError
          else
            let n_items = wrap64 (prod_list shape_slice);
                nbytes_chunk = wrap64 (n_items * itemsize)
            in
            ebind (quot nbytes_mem nbytes_chunk) (\<lambda>n_chunks.
            case maximal of
              None \<Rightarrow> Inr (Some n_chunks)
            | Some m \<Rightarrow> if m \<noteq> 0 then Inr (Some (max n_chunks m)) else Inr (Some n_chunks))))"

section \<open>Arrays\<close>

text \<open>A \<open>numpy.ndarray\<close> as far as the view uses one: its shape and its elements in
  row-major order. \<open>ravel\<close> is the position of a multi-index in that order and
  \<open>unravel_index\<close> the multi-index of a position.\<close>

datatype 'a ndarray = NDArray (arr_shape: "nat list") (arr_data: "'a list")

fun ravel :: "nat list \<Rightarrow> nat list \<Rightarrow> nat" where
  "ravel (d # ds) (i # js) = i * prod_list ds + ravel ds js"
| "ravel ds js = 0"

fun index_of :: "'a list \<Rightarrow> 'a \<Rightarrow> nat" where
  "index_of [] x = 0"
| "index_of (y # ys) x = (if x = y then 0 else Suc (index_of ys x))"

text \<open>\<open>numpy.argsort(axes).tolist()\<close> for pairwise different entries: the positions
  of the entries in increasing order of the entries.\<close>

definition argsort :: "int list \<Rightarrow> int list" where
  "argsort axes = map (\<lambda>v. int (index_of axes v)) (sort axes)"

text \<open>\<open>numpy.transpose(a, axes)\<close>: \<open>axes\<close> has to be a permutation of the dimensions
  (\<open>ValueError\<close> otherwise); dimension \<open>i\<close> of the result is dimension \<open>axes[i]\<close> of
  \<open>a\<close>.\<close>

definition np_transpose :: "'a ndarray \<Rightarrow> int list \<Rightarrow> error + 'a ndarray" where
  "np_transpose a axes =
     (let s = arr_shape a; n = length s in
      if sort axes \<noteq> map int [0..<n] then Inl ValueError
      else
        let p = map nat axes;
            s' = map (\<lambda>ax. s ! ax) p
        in Inr (NDArray s'
             (map (\<lambda>m. let j = unravel_index s' m
                       in arr_data a ! ravel s (map (\<lambda>ax. j ! index_of p ax) [0..<n]))
                [0..<prod_list s'])))"

text \<open>\<open>a.reshape(newshape)\<close> in row-major order: the elements stay, the shape
  changes; the sizes have to agree. An entry \<open>None\<close> is a \<open>TypeError\<close>; a negative
  entry (the placeholder \<open>-1\<close> of numpy) is not produced by the view and is refused.\<close>

definition np_reshape :: "'a ndarray \<Rightarrow> int option list \<Rightarrow> error + 'a ndarray" where
  "np_reshape a newshape =
     (if None \<in> set newshape then Inl TypeError
      else if \<exists>d\<in>set newshape. d \<noteq> None \<and> the d < 0 then Inl ValueError
      else
        let s' = map (\<lambda>d. nat (the d)) newshape
        in if prod_list s' \<noteq> length (arr_data a) then Inl ValueError
           else Inr (NDArray s' (arr_data a)))"

text \<open>Indexing with a tuple that holds one entry per dimension, slices and lists of
  integers (index arrays of one dimension). A slice selects the coordinates
  \<open>range(*slc.indices(n))\<close>; a list selects its entries, negative ones counted from
  the end, and an entry out of range is an \<open>IndexError\<close>. The entry \<open>None\<close> does not
  occur in an index of the view and is refused.\<close>

fun axis_rows :: "index \<Rightarrow> nat \<Rightarrow> error + nat list" where
  "axis_rows (SliceIdx slc) n =
     (case indices slc (int n) of
        Inl e \<Rightarrow> Inl e
      | Inr (a, b, st) \<Rightarrow> Inr (map nat (py_range a b st)))"
| "axis_rows (ListIdx l) n =
     mapM (\<lambda>i. if - int n \<le> i \<and> i < int n then Inr (nat (if i < 0 then i + int n else i))
                else Inl IndexError) l"
| "axis_rows NoneIdx n = Inl IndexError"

fun is_list :: "index \<Rightarrow> bool" where
  "is_list (ListIdx l) = True"
| "is_list idx = False"

text \<open>Where the dimension of the index lists goes in the result: to the place of the
  lists when they stand side by side, to the front otherwise.\<close>

definition list_dims :: "index list \<Rightarrow> nat list" where
  "list_dims idx = filter (\<lambda>k. is_list (idx ! k)) [0..<length idx]"

definition adv_pos :: "index list \<Rightarrow> nat" where
  "adv_pos idx =
     (let A = list_dims idx in
      if A = [] then length idx
      else if A = [hd A..<hd A + length A] then hd A
      else 0)"

text \<open>The dimension of the result that dimension \<open>k\<close> of the array is read along.\<close>

definition result_dim :: "index list \<Rightarrow> nat \<Rightarrow> nat" where
  "result_dim idx k =
     (if is_list (idx ! k) then adv_pos idx
      else
        let rank = length (filter (\<lambda>i. \<not> is_list (idx ! i)) [0..<k])
        in if rank < adv_pos idx then rank else Suc rank)"

definition result_shape :: "index list \<Rightarrow> nat list list \<Rightarrow> error + nat list" where
  "result_shape idx rowss =
     (let A = list_dims idx;
          lens = map (\<lambda>k. length (rowss ! k)) (filter (\<lambda>k. \<not> is_list (idx ! k)) [0..<length idx])
      in if A = [] then Inr lens
         else if \<exists>k\<in>set A. length (rowss ! k) \<noteq> length (rowss ! hd A) then Inl IndexError
         else Inr (take (adv_pos idx) lens @ [length (rowss ! hd A)] @ drop (adv_pos idx) lens))"

text \<open>The selection: the shape of the result and, for every element of the result in
  row-major order, the position in the array that it stands for.\<close>

definition selection :: "nat list \<Rightarrow> index list \<Rightarrow> error + (nat list \<times> nat list)" where
  "selection dshape idx =
     (if length idx \<noteq> length dshape then Inl IndexError
      else
        ebind (mapM (\<lambda>(entry, n). axis_rows entry n) (zip idx dshape)) (\<lambda>rowss.
        ebind (result_shape idx rowss) (\<lambda>rs.
        Inr (rs, map (\<lambda>m. let j = unravel_index rs m
                          in ravel dshape (map (\<lambda>k. rowss ! k ! (j ! result_dim idx k))
                                             [0..<length dshape]))
                   [0..<prod_list rs]))))"

text \<open>\<open>data[idx]\<close>.\<close>

definition np_getitem :: "'a ndarray \<Rightarrow> index list \<Rightarrow> error + 'a ndarray" where
  "np_getitem a idx =
     ebind (selection (arr_shape a) idx) (\<lambda>(rs, positions).
     Inr (NDArray rs (map (\<lambda>p. arr_data a ! p) positions)))"

text \<open>\<open>data[idx] = v\<close> for a value of the shape of \<open>data[idx]\<close>, element by element.
  (numpy also broadcasts a value of another shape; the view never assigns one, and
  the model refuses it with the \<open>ValueError\<close> of a failed broadcast.)\<close>

definition np_setitem :: "'a ndarray \<Rightarrow> index list \<Rightarrow> 'a ndarray \<Rightarrow> error + 'a ndarray" where
  "np_setitem a idx v =
     ebind (selection (arr_shape a) idx) (\<lambda>(rs, positions).
     if arr_shape v \<noteq> rs then Inl ValueError
     else Inr (NDArray (arr_shape a)
                 (fold (\<lambda>(p, x) d. d[p := x]) (zip positions (arr_data v)) (arr_data a))))"

section \<open>The view\<close>

text \<open>The chunks of a view: the planner's lists for a dense view, enumerated by
  \<open>chunkIndexProduct\<close> at every call of \<open>items\<close>, or the chunk list of
  \<open>maskedChunkIndex\<close> for a masked one.\<close>

datatype chunkIndex = DenseIndex "(slice \<times> int) list list" | MaskedIndex "chunk option list"

text \<open>The attributes of a \<open>MaskedView\<close> that \<open>items\<close> reads. The buffer is allocated at
  the first call of \<open>items\<close>, with \<open>bufferShape\<close>.\<close>

record view =
  view_chunkIndex :: chunkIndex
  view_chunkAxes :: "int list"
  view_axesOrder :: "int list"
  view_masked :: bool
  view_bufferShape :: "int \<times> int"
  view_readonly :: bool

text \<open>\<open>MaskedView.__init__(data, mask, nMca, mcaAxis, mcaSlice, axesOrder, readonly)\<close>
  with \<open>ChunkedView.__init__\<close>; only the shape of \<open>data\<close> is read. The \<open>dtype\<close>
  argument is the pair of conversions that \<open>items\<close> takes.\<close>

definition MaskedView_init ::
  "int list \<Rightarrow> mask option \<Rightarrow> int \<Rightarrow> int option \<Rightarrow> slice option \<Rightarrow> int list option \<Rightarrow> bool
     \<Rightarrow> error + view" where
  "MaskedView_init shape mask0 nMca0 mcaAxis0 mcaSlice0 axesOrder0 readonly =
     (let mcaAxis = (case mcaAxis0 of None \<Rightarrow> -1 | Some ax \<Rightarrow> ax);
          mcaSlice = (case mcaSlice0 of None \<Rightarrow> Slice None None None | Some s \<Rightarrow> s)
      in
      ebind (case mask0 of
               None \<Rightarrow>
                 ebind (fullChunkIndex shape nMca0 (Some [mcaAxis]) axesOrder0 (Some [mcaSlice]) ''C'')
                   (\<lambda>(chunkIndex, chunkAxes, axesOrder, nMca).
                 Inr (DenseIndex chunkIndex, chunkAxes, axesOrder, nMca))
             | Some msk \<Rightarrow>
                 ebind (maskedChunkIndex shape nMca0 mask0 (Some [mcaAxis]) axesOrder0
                          (Some [mcaSlice]) ''C'')
                   (\<lambda>(chunkIndex, chunkAxes, axesOrder, nMca).
                 Inr (MaskedIndex chunkIndex, chunkAxes, axesOrder, nMca)))
        (\<lambda>(chunkIndex, chunkAxes, axesOrder, nMca).
      ebind (py_getitem shape mcaAxis) (\<lambda>n2.
      ebind (sliceLen mcaSlice n2) (\<lambda>nChan.
      Inr \<lparr>view_chunkIndex = chunkIndex, view_chunkAxes = chunkAxes,
           view_axesOrder = axesOrder, view_masked = (mask0 \<noteq> None),
           view_bufferShape = (nMca, nChan), view_readonly = readonly\<rparr>))))"

text \<open>\<open>value = buffer[:nMca, :]\<close>: the number of rows of the slice of the buffer that one
  round of \<open>items\<close> works on.\<close>

definition buffer_slice :: "'b ndarray \<Rightarrow> int \<Rightarrow> error + int" where
  "buffer_slice buffer nMca =
     sliceLen (Slice None (Some nMca) None) (int (hd (arr_shape buffer)))"

text \<open>One round of the loop of \<open>items\<close> for the chunk \<open>(idxChunk, idxShape, nMca)\<close>: the
  read into the first \<open>nMca\<close> rows of the buffer, the yield (the consumer leaves the
  buffer as it is), and the write-back of a view that is not read-only. The buffer
  holds its rows one after the other; \<open>to_buffer\<close> and \<open>to_data\<close> are the conversions
  between the type of the data and the type of the buffer that the assignments make.\<close>

definition chunk_round ::
  "('a \<Rightarrow> 'b) \<Rightarrow> ('b \<Rightarrow> 'a) \<Rightarrow> bool \<Rightarrow> int list \<Rightarrow> int list \<Rightarrow> int \<Rightarrow> chunk
     \<Rightarrow> 'a ndarray \<times> 'b ndarray \<Rightarrow> error + ('a ndarray \<times> 'b ndarray)" where
  "chunk_round to_buffer to_data post_copy transposeAxes itransposeAxes nChan c state =
     (case (c, state) of ((idxChunk, idxShape, nMca), (data, buffer)) \<Rightarrow>
      ebind (buffer_slice buffer nMca) (\<lambda>nRows.
      ebind (np_getitem data idxChunk) (\<lambda>sub.
      ebind (np_transpose sub transposeAxes) (\<lambda>t.
      ebind (np_reshape t [Some nMca, Some nChan]) (\<lambda>r.
      if arr_shape r \<noteq> [nat nRows, nat nChan] then Inl ValueError
      else
        let buffer' = NDArray (arr_shape buffer)
              (map to_buffer (arr_data r) @ drop (length (arr_data r)) (arr_data buffer))
        in
        if \<not> post_copy then Inr (data, buffer')
        else
          ebind (mapM (\<lambda>i. py_getitem idxShape i) transposeAxes) (\<lambda>idxShape'.
          ebind (np_reshape (NDArray [nat nRows, nat nChan]
                               (take (nat nRows * nat nChan) (arr_data buffer'))) idxShape')
            (\<lambda>v.
          ebind (np_transpose v itransposeAxes) (\<lambda>v'.
          ebind (np_setitem data idxChunk (NDArray (arr_shape v') (map to_data (arr_data v'))))
            (\<lambda>data'.
          Inr (data', buffer'))))))))))"

text \<open>The loop of \<open>items\<close> over the chunks; an entry \<open>None\<close> of a masked chunk list
  cannot be unpacked into \<open>idxChunk, idxShape, nMca\<close>.\<close>

fun chunk_rounds ::
  "('a \<Rightarrow> 'b) \<Rightarrow> ('b \<Rightarrow> 'a) \<Rightarrow> bool \<Rightarrow> int list \<Rightarrow> int list \<Rightarrow> int \<Rightarrow> chunk option list
     \<Rightarrow> 'a ndarray \<times> 'b ndarray \<Rightarrow> error + ('a ndarray \<times> 'b ndarray)" where
  "chunk_rounds to_buffer to_data post_copy tA itA nChan [] state = Inr state"
| "chunk_rounds to_buffer to_data post_copy tA itA nChan (None # cs) state = Inl TypeError"
| "chunk_rounds to_buffer to_data post_copy tA itA nChan (Some c # cs) state =
     ebind (chunk_round to_buffer to_data post_copy tA itA nChan c state)
       (chunk_rounds to_buffer to_data post_copy tA itA nChan cs)"

text \<open>\<open>_prepareAccess\<close> at the first call: \<open>post_copy\<close> and the buffer that
  \<open>numpy.empty(self._bufferShape, self._dtype)\<close> allocates (a negative dimension is a
  \<open>ValueError\<close>). \<open>numpy.empty\<close> leaves the elements as they are in memory, which is
  \<open>fill\<close>.\<close>

definition prepareAccess :: "(nat \<Rightarrow> 'b) \<Rightarrow> view \<Rightarrow> error + (bool \<times> 'b ndarray)" where
  "prepareAccess fill v =
     (case view_bufferShape v of (nBuffer, nChan) \<Rightarrow>
        if nBuffer < 0 \<or> nChan < 0 then Inl ValueError
        else Inr (\<not> view_readonly v,
                  NDArray [nat nBuffer, nat nChan] (map fill [0..<nat nBuffer * nat nChan])))"

text \<open>The chunks that \<open>items\<close> goes through (\<open>chunkGenerator\<close>) and \<open>transposeAxes\<close>,
  for data of the given shape.\<close>

definition chunkGenerator :: "view \<Rightarrow> int list \<Rightarrow> error + (chunk option list \<times> int list)" where
  "chunkGenerator v shape =
     (case view_chunkIndex v of
        MaskedIndex chunks \<Rightarrow>
          Inr (chunks, if intListIndexAxis shape (view_axesOrder v) = Some 0
                       then [0, 1] else [1, 0])
      | DenseIndex chunkIndex \<Rightarrow>
          ebind (chunkIndexProduct chunkIndex (view_chunkAxes v) (view_axesOrder v)) (\<lambda>cs.
          Inr (map Some cs, sort (view_axesOrder v) @ view_chunkAxes v)))"

text \<open>\<open>items\<close>, run to exhaustion by a consumer that does not write to the buffer:
  the data and the buffer at the end (the keys that are yielded do not depend on the
  data).\<close>

definition items ::
  "('a \<Rightarrow> 'b) \<Rightarrow> ('b \<Rightarrow> 'a) \<Rightarrow> (nat \<Rightarrow> 'b) \<Rightarrow> view \<Rightarrow> 'a ndarray
     \<Rightarrow> error + ('a ndarray \<times> 'b ndarray)" where
  "items to_buffer to_data fill v data =
     ebind (prepareAccess fill v) (\<lambda>(post_copy, buffer).
     ebind (chunkGenerator v (map int (arr_shape data))) (\<lambda>(chunks, transposeAxes).
     chunk_rounds to_buffer to_data post_copy transposeAxes (argsort transposeAxes)
       (snd (view_bufferShape v)) chunks (data, buffer)))"

lemma length_py_range_pos:
  "0 < s \<Longrightarrow> int (length (py_range a b s)) = max 0 ((b - a + s - 1) div s)"
proof (induction a b s rule: py_range.induct)
  case (1 a b s)
  show ?case
  proof (cases "a < b")
    case True
    have "(b - a - 1 + s) div s = (b - a - 1) div s + 1"
      using \<open>0 < s\<close> div_add_self2 [of s "b - a - 1"] by simp
    then have "(b - a + s - 1) div s = (b - (a + s) + s - 1) div s + 1"
      by (simp add: algebra_simps)
    moreover have "0 \<le> (b - (a + s) + s - 1) div s"
      using True \<open>0 < s\<close> by (simp add: pos_imp_zdiv_nonneg_iff)
    ultimately show ?thesis
      using 1 True by (subst py_range.simps) simp
  next
    case False
    then have "(b - a + s - 1) div s \<le> 0"
      using \<open>0 < s\<close> pos_imp_zdiv_pos_iff [of s "b - a + s - 1"] by simp
    then show ?thesis
      using False \<open>0 < s\<close> by (subst py_range.simps) simp
  qed
qed

lemma py_range_mirror: "py_range a b s = map uminus (py_range (- a) (- b) (- s))"
proof (induction a b s rule: py_range.induct)
  case (1 a b s)
  show ?case
  proof (cases "(0 < s \<and> a < b) \<or> (s < 0 \<and> b < a)")
    case True
    then have "py_range (a + s) b s = map uminus (py_range (- (a + s)) (- b) (- s))"
      using 1 by simp
    then show ?thesis
      using True
      by (subst py_range.simps, subst (2) py_range.simps) auto
  next
    case False
    then show ?thesis
      by (subst py_range.simps, subst (2) py_range.simps) auto
  qed
qed

lemma length_py_range_neg:
  assumes "s < 0"
  shows "int (length (py_range a b s)) = max 0 ((b - a + s + 1) div s)"
proof -
  have "int (length (py_range a b s)) = int (length (py_range (- a) (- b) (- s)))"
    by (subst py_range_mirror) simp
  also have "\<dots> = max 0 ((- b - (- a) + (- s) - 1) div (- s))"
    using assms by (simp add: length_py_range_pos)
  also have "(- b - (- a) + (- s) - 1) div (- s) = (b - a + s + 1) div s"
    using div_minus_minus [of "b - a + s + 1" s] by (simp add: algebra_simps)
  finally show ?thesis .
qed

lemma indices_total:
  assumes "0 \<le> n" and "slice_step slc \<noteq> Some 0"
  shows "\<exists>a b st. indices slc n = Inr (a, b, st) \<and> st \<noteq> 0"
  using assms by (cases "slice_step slc") (auto simp: indices_def Let_def)

lemma sliceLen_total:
  assumes "0 \<le> n" and "slice_step slc \<noteq> Some 0"
  shows "\<exists>l. sliceLen slc n = Inr l"
  using indices_total [OF assms] by (auto simp: sliceLen_def Let_def)

text \<open>C5. For every slice with a nonzero (or absent) step and every axis length
  \<open>n \<ge> 0\<close>, \<open>sliceLen\<close> returns, and its result is the length of the materialised
  list \<open>list(range(*slc.indices(n)))\<close>; the result is never negative.\<close>

theorem sliceLen_closed_form:
  assumes "0 \<le> n" and "slice_step slc \<noteq> Some 0"
  shows "\<exists>a b st l. indices slc n = Inr (a, b, st) \<and> sliceLen slc n = Inr l
           \<and> l = int (length (py_range a b st)) \<and> 0 \<le> l"
proof -
  obtain a b st where ind: "indices slc n = Inr (a, b, st)" and nz: "st \<noteq> 0"
    using indices_total [OF assms] by blast
  have "sliceLen slc n = Inr (int (length (py_range a b st)))"
  proof (cases "st < 0")
    case True
    then show ?thesis
      using ind by (simp add: sliceLen_def length_py_range_neg)
  next
    case False
    then have "0 < st" using nz by simp
    then show ?thesis
      using ind by (simp add: sliceLen_def length_py_range_pos)
  qed
  then show ?thesis using ind by simp
qed

theorem sliceLen_closed_form_witness:
  "(0::int) \<le> 5 \<and> slice_step (Slice None None (Some (- 1))) \<noteq> Some 0
   \<and> (\<exists>a b st l. indices (Slice None None (Some (- 1))) 5 = Inr (a, b, st)
         \<and> sliceLen (Slice None None (Some (- 1))) 5 = Inr l
         \<and> l = int (length (py_range a b st)) \<and> 0 \<le> l)
   \<and> sliceLen (Slice None None (Some (- 1))) 5 = Inr 5"
  using sliceLen_closed_form [of 5 "Slice None None (Some (- 1))"]
  by (simp add: sliceLen_def indices_def Let_def)

lemma py_range_Nil: "\<not> ((0 < s \<and> a < b) \<or> (s < 0 \<and> b < a)) \<Longrightarrow> py_range a b s = []"
  by (subst py_range.simps) simp

lemma py_range_Cons:
  "(0 < s \<and> a < b) \<or> (s < 0 \<and> b < a) \<Longrightarrow> py_range a b s = a # py_range (a + s) b s"
  by (subst py_range.simps) simp

text \<open>C6. The docstring of \<open>sliceReverse\<close> promises a slice that yields the same
  items in reversed order. The scenario of the specification holds:
  \<open>sliceReverse(slice(None, None, -1), 5)\<close> is \<open>slice(0, 5, 1)\<close> and yields
  \<open>[0, 1, 2, 3, 4]\<close>. For the empty selection \<open>slice(0, 0, 1)\<close> of \<open>range(5)\<close>,
  however, the code returns \<open>slice(-1, None, -1)\<close>, which selects all five elements
  \<open>[4, 3, 2, 1, 0]\<close> instead of none.\<close>

theorem sliceReverse_empty_selection:
  "sliceReverse (Slice None None (Some (- 1))) 5 = Inr (Slice (Some 0) (Some 5) (Some 1))
   \<and> getslice (range_list 5) (Slice (Some 0) (Some 5) (Some 1)) = Inr [0, 1, 2, 3, 4]
   \<and> getslice (range_list 5) (Slice (Some 0) (Some 0) (Some 1)) = Inr []
   \<and> sliceReverse (Slice (Some 0) (Some 0) (Some 1)) 5 = Inr (Slice (Some (- 1)) None (Some (- 1)))
   \<and> getslice (range_list 5) (Slice (Some (- 1)) None (Some (- 1))) = Inr [4, 3, 2, 1, 0]"
  by (simp add: sliceReverse_def getslice_def range_list_def indices_def adjust_bound_def
      Let_def py_range_Nil py_range_Cons)

lemma ebind_Inr [simp]: "ebind (Inr x) f = f x"
  by (simp add: ebind_def)

lemma ebind_Inl [simp]: "ebind (Inl e) f = Inl e"
  by (simp add: ebind_def)

lemma ebind_eq_Inr: "ebind m f = Inr y \<longleftrightarrow> (\<exists>x. m = Inr x \<and> f x = Inr y)"
  by (cases m) auto

lemma py_range_step1: "py_range a b 1 = [a..b - 1]"
proof (induction a b "1::int" rule: py_range.induct)
  case (1 a b)
  show ?case
  proof (cases "a < b")
    case True
    then have "py_range a b 1 = a # [a + 1..b - 1]"
      using 1 by (simp add: py_range_Cons)
    then show ?thesis using True by (simp add: upto_rec1)
  next
    case False
    then show ?thesis by (simp add: py_range_Nil)
  qed
qed

lemma range_list_upto: "range_list n = [0..n - 1]"
  by (simp add: range_list_def py_range_step1)

lemma indexRows_piece:
  assumes "0 \<le> a" "a \<le> b" "b \<le> n"
  shows "indexRows (SliceIdx (Slice (Some a) (Some b) (Some 1))) n = [a..b - 1]"
  using assms by (simp add: indices_def adjust_bound_def py_range_step1)

lemma indexRows_full:
  assumes "0 \<le> n"
  shows "indexRows (SliceIdx (Slice None None None)) n = [0..n - 1]"
  using assms by (simp add: indices_def py_range_step1)

lemma upto_append: "a \<le> b \<Longrightarrow> b \<le> c + 1 \<Longrightarrow> [a..b - 1] @ [b..c] = [a..c]"
proof (cases "b \<le> c")
  case True
  assume "a \<le> b"
  then show ?thesis using True upto_split1 [of a b c] by simp
next
  case False
  assume "b \<le> c + 1"
  then have "b = c + 1" using False by simp
  then show ?thesis by simp
qed

lemma gen_pieces:
  assumes "1 \<le> s" "0 \<le> a"
  shows "concat (map (\<lambda>(slc, l). indexRows (SliceIdx slc) N)
           (map (\<lambda>a. (Slice (Some a) (Some (min (a + s) N)) (Some 1), min (a + s) N - a))
              (py_range a N s))) = [a..N - 1]
       \<and> (\<forall>(slc, l) \<in> set (map (\<lambda>a. (Slice (Some a) (Some (min (a + s) N)) (Some 1), min (a + s) N - a))
              (py_range a N s)).
            int (length (indexRows (SliceIdx slc) N)) = l \<and> 1 \<le> l \<and> l \<le> s)"
  using assms
proof (induction a N s rule: py_range.induct)
  case (1 a N s)
  let ?piece = "\<lambda>a. (Slice (Some a) (Some (min (a + s) N)) (Some 1), min (a + s) N - a)"
  let ?rows = "\<lambda>(slc, l). indexRows (SliceIdx slc) N"
  let ?ok = "\<lambda>(slc, l). int (length (indexRows (SliceIdx slc) N)) = l \<and> 1 \<le> l \<and> l \<le> s"
  show ?case
  proof (cases "a < N")
    case True
    have IH: "concat (map ?rows (map ?piece (py_range (a + s) N s))) = [a + s..N - 1]
       \<and> (\<forall>p \<in> set (map ?piece (py_range (a + s) N s)). ?ok p)"
      by (rule "1.IH") (use True "1.prems" in auto)
    have r: "indexRows (SliceIdx (Slice (Some a) (Some (min (a + s) N)) (Some 1))) N = [a..min (a + s) N - 1]"
      using 1(2,3) True by (intro indexRows_piece) auto
    have app: "[a..min (a + s) N - 1] @ [a + s..N - 1] = [a..N - 1]"
    proof (cases "a + s \<le> N")
      case True
      then show ?thesis using upto_append [of a "a + s" "N - 1"] 1(2) by simp
    next
      case False
      then show ?thesis by (simp add: min_def)
    qed
    have pr: "py_range a N s = a # py_range (a + s) N s"
      using True 1(2) by (simp add: py_range_Cons)
    have ok1: "?ok (?piece a)"
      using r True 1(2) by (simp del: indexRows.simps add: min_def)
    have c1: "concat (map ?rows (map ?piece (py_range a N s))) = [a..N - 1]"
      unfolding pr using IH r app by (simp del: indexRows.simps)
    have c2: "\<forall>p \<in> set (map ?piece (py_range a N s)). ?ok p"
      unfolding pr using IH ok1 by (auto simp del: indexRows.simps)
    show ?thesis by (rule conjI [OF c1 c2])
  next
    case False
    then show ?thesis using 1(2) by (simp add: py_range_Nil)
  qed
qed

lemma py_range_bounds:
  "0 < s \<Longrightarrow> x \<in> set (py_range a b s) \<Longrightarrow> a \<le> x \<and> x < b"
proof (induction a b s rule: py_range.induct)
  case (1 a b s)
  show ?case
  proof (cases "a < b")
    case True
    then have "py_range a b s = a # py_range (a + s) b s"
      using "1.prems" by (simp add: py_range_Cons)
    then have "x = a \<or> x \<in> set (py_range (a + s) b s)"
      using "1.prems" by simp
    then show ?thesis
    proof
      assume "x = a" then show ?thesis using True by simp
    next
      assume "x \<in> set (py_range (a + s) b s)"
      then have "a + s \<le> x \<and> x < b"
        using "1.IH" True "1.prems" by simp
      then show ?thesis using "1.prems" by simp
    qed
  next
    case False
    then show ?thesis using "1.prems" by (simp add: py_range_Nil)
  qed
qed

text \<open>Ceiling division as the source writes it: \<open>N // d + int(bool(N % d))\<close>.\<close>

lemma ceil_div:
  fixes N d :: int
  assumes "1 \<le> d" "0 \<le> N"
  defines "c \<equiv> N div d + int_bool (N mod d)"
  shows "N \<le> c * d" and "N \<ge> 1 \<Longrightarrow> (c - 1) * d < N" and "N \<ge> 1 \<Longrightarrow> 1 \<le> c" and "0 \<le> c"
proof -
  have eq: "N = N div d * d + N mod d" by simp
  have m: "0 \<le> N mod d" "N mod d < d" using assms by simp_all
  have q: "0 \<le> N div d" using assms by (simp add: pos_imp_zdiv_nonneg_iff)
  show "N \<le> c * d"
  proof (cases "N mod d = 0")
    case True
    then show ?thesis using eq by (simp add: c_def int_bool_def)
  next
    case False
    then have "c * d = N div d * d + d" by (simp add: c_def int_bool_def algebra_simps)
    then show ?thesis using eq m by linarith
  qed
  show "0 \<le> c" using q by (simp add: c_def int_bool_def)
  {
    assume N1: "N \<ge> 1"
    show "(c - 1) * d < N"
    proof (cases "N mod d = 0")
      case True
      then have "(c - 1) * d = N - d" using eq by (simp add: c_def int_bool_def algebra_simps)
      then show ?thesis using assms by simp
    next
      case False
      then have "(c - 1) * d = N div d * d" by (simp add: c_def int_bool_def)
      then show ?thesis using eq m False by linarith
    qed
    show "1 \<le> c"
    proof (cases "N mod d = 0")
      case True
      then have "N = N div d * d" using eq by simp
      then have "N div d \<noteq> 0" using N1 by auto
      then show ?thesis using q True by (simp add: c_def int_bool_def)
    next
      case False
      then show ?thesis using q by (simp add: c_def int_bool_def)
    qed
  }
qed

lemma chunkIndexGen_pos:
  assumes "1 \<le> s"
  shows "chunkIndexGen 0 N (Some s) =
     Inr (map (\<lambda>a. (Slice (Some a) (Some (min (a + s) N)) (Some 1), min (a + s) N - a))
            (py_range 0 N s))"
proof -
  have "(\<lambda>a. let b = (if s < 0 then max (a + s) N else min (a + s) N); n = \<bar>b - a\<bar>
             in (Slice (Some a) (if b = -1 then None else Some b)
                   (Some (if s < 0 then -1 else 1)), n)) x
        = (Slice (Some x) (Some (min (x + s) N)) (Some 1), min (x + s) N - x)"
    if "x \<in> set (py_range 0 N s)" for x
  proof -
    have "0 \<le> x \<and> x < N" using py_range_bounds [of s x 0 N] that assms by simp
    then show ?thesis using assms by (simp add: Let_def min_def)
  qed
  then show ?thesis
    using assms by (simp add: chunkIndexGen_def Let_def cong: map_cong)
qed

lemma chunkIndexGen_piecesOK:
  assumes "1 \<le> s" "0 \<le> N"
  shows "\<exists>pieces. chunkIndexGen 0 N (Some s) = Inr pieces \<and> piecesOK N s pieces"
  using gen_pieces [OF assms(1), of 0 N] assms
  unfolding chunkIndexGen_pos [OF assms(1)] piecesOK_def range_list_upto
  by (auto simp del: indexRows.simps)

lemma chunkIndexGen_length:
  assumes "1 \<le> s"
  shows "chunkIndexGen 0 N (Some s) = Inr pieces \<Longrightarrow>
    int (length pieces) = max 0 ((N + s - 1) div s)"
  using assms length_py_range_pos [of s 0 N]
  unfolding chunkIndexGen_pos [OF assms(1)] by auto

lemma piecesOK_full: "0 \<le> n \<Longrightarrow> piecesOK n n [(Slice None None None, n)]"
  unfolding piecesOK_def range_list_upto
  by (simp add: indexRows_full del: indexRows.simps)

lemma piecesOK_mono: "piecesOK n f ps \<Longrightarrow> f \<le> g \<Longrightarrow> piecesOK n g ps"
  unfolding piecesOK_def by fastforce


lemma split_step:
  fixes cap nItems N :: int
  assumes "1 \<le> cap" "nItems \<le> cap" "cap < nItems * N" "0 \<le> nItems" "0 \<le> N"
  defines "step \<equiv> cap div nItems"
  defines "n \<equiv> N div step + int_bool (N mod step)"
  defines "step' \<equiv> N div n + int_bool (N mod n)"
  shows "1 \<le> nItems" "1 \<le> N" "1 \<le> step" "1 \<le> n" "1 \<le> step'" "step' \<le> step"
    "nItems * step' \<le> cap" "(n - 1) * step' < N" "N \<le> n * step'"
proof -
  show i1: "1 \<le> nItems"
  proof (rule ccontr)
    assume "\<not> 1 \<le> nItems"
    then have "nItems = 0" using assms by simp
    then show False using assms by simp
  qed
  show N1: "1 \<le> N"
  proof (rule ccontr)
    assume "\<not> 1 \<le> N"
    then have "N = 0" using assms by simp
    then show False using assms by simp
  qed
  show s1: "1 \<le> step"
    unfolding step_def using i1 assms(2) pos_imp_zdiv_pos_iff [of nItems cap] by simp
  have sc: "nItems * step \<le> cap"
    unfolding step_def using i1 mult_div_mod_eq [of nItems cap] pos_mod_sign [of nItems cap]
    by linarith
  show n1: "1 \<le> n"
    unfolding n_def using ceil_div(3) [OF s1 assms(5)] N1 by simp
  have n_up: "N \<le> n * step"
    unfolding n_def using ceil_div(1) [OF s1 assms(5)] by simp
  have n_lo: "(n - 1) * step < N"
    unfolding n_def using ceil_div(2) [OF s1 assms(5)] N1 by simp
  show s'1: "1 \<le> step'"
    unfolding step'_def using ceil_div(3) [OF n1 assms(5)] N1 by simp
  show up: "N \<le> n * step'"
    unfolding step'_def using ceil_div(1) [OF n1 assms(5)] by (simp add: mult.commute)
  have lo: "(step' - 1) * n < N"
    unfolding step'_def using ceil_div(2) [OF n1 assms(5)] N1 by simp
  show le: "step' \<le> step"
  proof (rule ccontr)
    assume "\<not> step' \<le> step"
    then have "step \<le> step' - 1" by simp
    then have "step * n \<le> (step' - 1) * n" using n1 by (simp add: mult_right_mono)
    then show False using lo n_up by (simp add: mult.commute)
  qed
  have "nItems * step' \<le> nItems * step" using le i1 by (simp add: mult_left_mono)
  then show "nItems * step' \<le> cap" using sc by simp
  have "(n - 1) * step' \<le> (n - 1) * step" using le n1 by (simp add: mult_left_mono)
  then show "(n - 1) * step' < N" using n_lo by simp
qed


lemma splitAxis_split:
  assumes "1 \<le> cap" "nItems \<le> cap" "cap < nItems * N" "0 \<le> nItems" "0 \<le> N"
  shows "splitAxis cap nItems nBuffer N =
     ebind (chunkIndexGen 0 N (Some (N div (N div (cap div nItems) + int_bool (N mod (cap div nItems)))
                + int_bool (N mod (N div (cap div nItems) + int_bool (N mod (cap div nItems)))))))
       (\<lambda>idxAxis. Inr (idxAxis, nBuffer * (N div (N div (cap div nItems) + int_bool (N mod (cap div nItems)))
                + int_bool (N mod (N div (cap div nItems) + int_bool (N mod (cap div nItems)))))))"
  using split_step(1,3,4) [OF assms] assms(2,3)
  by (simp add: splitAxis_def py_floordiv_def py_mod_def Let_def)

lemma splitAxis_ok:
  assumes "1 \<le> cap" "0 \<le> nItems" "0 \<le> N"
  shows "\<exists>pieces f. splitAxis cap nItems nBuffer N = Inr (pieces, nBuffer * f)
           \<and> piecesOK N f pieces \<and> 0 \<le> f
           \<and> (nItems * N \<le> cap \<longrightarrow> f = N)
           \<and> (cap < nItems * N \<longrightarrow> cap < nItems \<longrightarrow> f = 1)
           \<and> (cap < nItems * N \<longrightarrow> nItems \<le> cap \<longrightarrow> nItems * f \<le> cap)"
proof (cases "nItems * N \<le> cap")
  case True
  then have "splitAxis cap nItems nBuffer N = Inr ([(Slice None None None, N)], nBuffer * N)"
    by (simp add: splitAxis_def)
  then show ?thesis using True piecesOK_full [OF assms(3)] assms(3) by auto
next
  case False
  show ?thesis
  proof (cases "cap < nItems")
    case True
    obtain pieces where p: "chunkIndexGen 0 N (Some 1) = Inr pieces" "piecesOK N 1 pieces"
      using chunkIndexGen_piecesOK [of 1 N] assms(3) by auto
    then have "splitAxis cap nItems nBuffer N = Inr (pieces, nBuffer * 1)"
      using True False by (simp add: splitAxis_def)
    then show ?thesis using p True False by (intro exI [of _ pieces] exI [of _ 1]) simp
  next
    case nle: False
    let ?step' = "N div (N div (cap div nItems) + int_bool (N mod (cap div nItems)))
                + int_bool (N mod (N div (cap div nItems) + int_bool (N mod (cap div nItems))))"
    have h: "nItems \<le> cap" "cap < nItems * N" using False nle by simp_all
    note st = split_step [OF assms(1) h assms(2,3)]
    obtain pieces where p: "chunkIndexGen 0 N (Some ?step') = Inr pieces" "piecesOK N ?step' pieces"
      using chunkIndexGen_piecesOK [OF st(5) assms(3)] by auto
    have "splitAxis cap nItems nBuffer N = Inr (pieces, nBuffer * ?step')"
      unfolding splitAxis_split [OF assms(1) h assms(2,3)] p(1) by simp
    then show ?thesis using p(2) st(5,7) h
      by (intro exI [of _ pieces] exI [of _ ?step']) simp
  qed
qed

lemma py_getitem_nth:
  "0 \<le> i \<Longrightarrow> i < int (length xs) \<Longrightarrow> py_getitem xs i = Inr (xs ! nat i)"
  by (simp add: py_getitem_def)

lemma capInv_step:
  fixes cap nItems nBuffer N f :: int
  assumes "1 \<le> cap" "0 \<le> nItems" "0 \<le> N" "0 \<le> f"
    and "0 \<le> nBuffer \<and> nBuffer \<le> cap \<and> (nItems \<le> cap \<longrightarrow> nBuffer = nItems)"
    and "nItems * N \<le> cap \<longrightarrow> f = N"
    and "cap < nItems * N \<longrightarrow> cap < nItems \<longrightarrow> f = 1"
    and "cap < nItems * N \<longrightarrow> nItems \<le> cap \<longrightarrow> nItems * f \<le> cap"
  shows "0 \<le> nBuffer * f \<and> nBuffer * f \<le> cap \<and> (nItems * N \<le> cap \<longrightarrow> nBuffer * f = nItems * N)"
proof (cases "nItems * N \<le> cap")
  case True
  then have f: "f = N" using assms by simp
  show ?thesis
  proof (cases "nItems \<le> cap")
    case True
    then show ?thesis using assms f \<open>nItems * N \<le> cap\<close> by simp
  next
    case False
    have "N = 0"
    proof (rule ccontr)
      assume "N \<noteq> 0"
      then have "1 \<le> N" using assms by simp
      then have "nItems * 1 \<le> nItems * N" using assms(2) by (intro mult_left_mono) auto
      then show False using False True by simp
    qed
    then show ?thesis using f assms by simp
  qed
next
  case False
  then show ?thesis using assms by (cases "cap < nItems") auto
qed

lemma orderAxesIndex_ok:
  assumes "1 \<le> cap" "\<forall>d\<in>set shape. 0 \<le> d"
    and "\<forall>ax\<in>set axes. 0 \<le> ax \<and> ax < int (length shape)" "0 \<le> nItems"
  shows "\<exists>new fs. orderAxesIndex shape cap axes (nItems, nBuffer, ci2)
           = Inr (nItems * prod_list (map (\<lambda>ax. shape ! nat ax) axes), nBuffer * prod_list fs, ci2 @ new)
         \<and> length new = length axes \<and> length fs = length axes
         \<and> (\<forall>i<length axes. piecesOK (shape ! nat (axes ! i)) (fs ! i) (new ! i) \<and> 0 \<le> fs ! i)
         \<and> (0 \<le> nBuffer \<and> nBuffer \<le> cap \<and> (nItems \<le> cap \<longrightarrow> nBuffer = nItems)
              \<longrightarrow> 0 \<le> nBuffer * prod_list fs \<and> nBuffer * prod_list fs \<le> cap)
         \<and> (\<forall>ax rest. axes = ax # rest \<longrightarrow>
               (\<exists>b. splitAxis cap nItems nBuffer (shape ! nat ax) = Inr (hd new, b)))"
  using assms(3,4)
proof (induction axes arbitrary: nItems nBuffer ci2)
  case Nil
  show ?case by (intro exI [of _ "[]"]) simp
next
  case (Cons ax rest)
  let ?N = "shape ! nat ax"
  have ax: "0 \<le> ax" "ax < int (length shape)" using Cons.prems by simp_all
  then have N0: "0 \<le> ?N" using assms(2) by simp
  have g: "py_getitem shape ax = Inr ?N" using ax by (rule py_getitem_nth)
  obtain pieces f where sp: "splitAxis cap nItems nBuffer ?N = Inr (pieces, nBuffer * f)"
    and ok: "piecesOK ?N f pieces" and f0: "0 \<le> f"
    and c1: "nItems * ?N \<le> cap \<longrightarrow> f = ?N"
    and c2: "cap < nItems * ?N \<longrightarrow> cap < nItems \<longrightarrow> f = 1"
    and c3: "cap < nItems * ?N \<longrightarrow> nItems \<le> cap \<longrightarrow> nItems * f \<le> cap"
    using splitAxis_ok [OF assms(1) Cons.prems(2) N0, of nBuffer] by blast
  have n0: "0 \<le> nItems * ?N" using Cons.prems(2) N0 by simp
  have r: "\<forall>ax\<in>set rest. 0 \<le> ax \<and> ax < int (length shape)" using Cons.prems by simp
  obtain new fs where
    run: "orderAxesIndex shape cap rest (nItems * ?N, nBuffer * f, ci2 @ [pieces])
           = Inr (nItems * ?N * prod_list (map (\<lambda>ax. shape ! nat ax) rest),
                  nBuffer * f * prod_list fs, (ci2 @ [pieces]) @ new)"
    and len: "length new = length rest" "length fs = length rest"
    and oks: "\<forall>i<length rest. piecesOK (shape ! nat (rest ! i)) (fs ! i) (new ! i) \<and> 0 \<le> fs ! i"
    and inv: "0 \<le> nBuffer * f \<and> nBuffer * f \<le> cap \<and> (nItems * ?N \<le> cap \<longrightarrow> nBuffer * f = nItems * ?N)
              \<longrightarrow> 0 \<le> nBuffer * f * prod_list fs \<and> nBuffer * f * prod_list fs \<le> cap"
    using Cons.IH [OF r n0, of "nBuffer * f" "ci2 @ [pieces]"] by blast
  have e: "orderAxesIndex shape cap (ax # rest) (nItems, nBuffer, ci2)
      = Inr (nItems * prod_list (map (\<lambda>ax. shape ! nat ax) (ax # rest)),
             nBuffer * prod_list (f # fs), ci2 @ (pieces # new))"
    using g sp run by (simp add: mult.assoc)
  have l: "length (pieces # new) = length (ax # rest)" "length (f # fs) = length (ax # rest)"
    using len by simp_all
  have o: "\<forall>i<length (ax # rest). piecesOK (shape ! nat ((ax # rest) ! i)) ((f # fs) ! i) ((pieces # new) ! i)
             \<and> 0 \<le> (f # fs) ! i"
  proof (intro allI impI)
    fix i assume "i < length (ax # rest)"
    then show "piecesOK (shape ! nat ((ax # rest) ! i)) ((f # fs) ! i) ((pieces # new) ! i)
             \<and> 0 \<le> (f # fs) ! i"
      using ok f0 oks by (cases i) auto
  qed
  have i: "0 \<le> nBuffer \<and> nBuffer \<le> cap \<and> (nItems \<le> cap \<longrightarrow> nBuffer = nItems)
              \<longrightarrow> 0 \<le> nBuffer * prod_list (f # fs) \<and> nBuffer * prod_list (f # fs) \<le> cap"
    using capInv_step [OF assms(1) Cons.prems(2) N0 f0 _ c1 c2 c3, of nBuffer] inv
    by (auto simp: mult.assoc)
  have h: "\<forall>ax' rest'. ax # rest = ax' # rest' \<longrightarrow>
               (\<exists>b. splitAxis cap nItems nBuffer (shape ! nat ax') = Inr (hd (pieces # new), b))"
    using sp by auto
  show ?case
    using e l o i h by (intro exI [of _ "pieces # new"] exI [of _ "f # fs"]) blast
qed

lemma chunkIndexParameters_facts:
  assumes "chunkIndexParameters shape cap0 ca0 ao0 sl0 d = Inr (cap, ca, ao, sl)"
  shows "cap = max cap0 1" and "length sl = length ca"
    and "mset ao = mset (filter (\<lambda>i. i \<notin> set ca) (map int [0..<length shape]))"
proof -
  let ?A = "filter (\<lambda>i. i \<notin> set ca)
     (if d = ''C'' then rev (map int [0..<length shape]) else map int [0..<length shape])"
  from assms obtain ca' sl' ao' where
    1: "mapM (\<lambda>i. possitive_index i (int (length shape))) (case ca0 of None \<Rightarrow> [] | Some c \<Rightarrow> c) = Inr ca'"
    and 2: "(case sl0 of None \<Rightarrow> Inr (replicate (length ca') (Slice None None None))
             | Some sl \<Rightarrow> if length ca' \<noteq> length sl then Inl ValueError else Inr sl) = Inr sl'"
    and 3: "(case ao0 of None \<Rightarrow> Inr (filter (\<lambda>i. i \<notin> set ca')
     (if d = ''C'' then rev (map int [0..<length shape]) else map int [0..<length shape]))
             | Some ao \<Rightarrow> ebind (mapM (\<lambda>i. possitive_index i (int (length shape))) ao) (\<lambda>ao'.
                   if sort ao' \<noteq> sort (filter (\<lambda>i. i \<notin> set ca')
     (if d = ''C'' then rev (map int [0..<length shape]) else map int [0..<length shape])) then Inl ValueError else Inr ao')) = Inr ao'"
    and 4: "(cap, ca, ao, sl) = (max cap0 1, ca', ao', sl')"
    unfolding chunkIndexParameters_def Let_def ebind_eq_Inr by auto
  show "cap = max cap0 1" using 4 by simp
  show "length sl = length ca" using 2 4 by (cases sl0) (auto split: if_splits)
  have eq: "ca' = ca" "ao' = ao" using 4 by simp_all
  have "mset ao = mset ?A"
  proof (cases ao0)
    case None
    then show ?thesis using 3 eq by simp
  next
    case (Some a)
    then have "sort ao = sort ?A" using 3 eq by (auto simp: ebind_eq_Inr split: if_splits)
    then have "mset (sort ao) = mset (sort ?A)" by simp
    then show ?thesis by (simp only: mset_sort)
  qed
  then show "mset ao = mset (filter (\<lambda>i. i \<notin> set ca) (map int [0..<length shape]))"
    by (cases "d = ''C''") (simp_all del: upt.simps)
qed

lemma axesOrder_facts:
  assumes "mset ao = mset (filter (\<lambda>i. i \<notin> set ca) (map int [0..<length shape]))"
  shows "distinct ao" and "set ao \<inter> set ca = {}"
    and "\<forall>ax\<in>set ao. 0 \<le> ax \<and> ax < int (length shape)"
    and "length shape \<le> length ao + length ca"
proof -
  let ?R = "map int [0..<length shape]"
  have dR: "distinct ?R" by (simp add: distinct_map)
  have "distinct (filter (\<lambda>i. i \<notin> set ca) ?R)" using dR by (rule distinct_filter)
  then show "distinct ao" using assms by (metis mset_eq_imp_distinct_iff)
  have s: "set ao = set (filter (\<lambda>i. i \<notin> set ca) ?R)" using assms by (rule mset_eq_setD)
  then show "set ao \<inter> set ca = {}" by auto
  show "\<forall>ax\<in>set ao. 0 \<le> ax \<and> ax < int (length shape)" using s by auto
  have l: "length ao = length (filter (\<lambda>i. i \<notin> set ca) ?R)"
    using assms by (rule mset_eq_length)
  have "length (filter (\<lambda>i. i \<in> set ca) ?R) = card (set (filter (\<lambda>i. i \<in> set ca) ?R))"
    by (rule distinct_card [symmetric, OF distinct_filter [OF dR]])
  also have "\<dots> \<le> card (set ca)" by (intro card_mono) auto
  also have "\<dots> \<le> length ca" by (rule card_length)
  finally have "length (filter (\<lambda>i. i \<in> set ca) ?R) \<le> length ca" .
  moreover have "length ?R = length (filter (\<lambda>i. i \<in> set ca) ?R) + length (filter (\<lambda>i. i \<notin> set ca) ?R)"
    using sum_length_filter_compl [of "\<lambda>i. i \<in> set ca" ?R] by simp
  ultimately show "length shape \<le> length ao + length ca" using l by simp
qed

lemma py_setitem_Inr:
  "py_setitem xs i v = Inr ys \<Longrightarrow> length ys = length xs"
  by (auto simp: py_setitem_def Let_def split: if_splits)

lemma py_setitem_nth:
  "0 \<le> i \<Longrightarrow> i < int (length xs) \<Longrightarrow> py_setitem xs i v = Inr (xs[nat i := v])"
  by (simp add: py_setitem_def)

lemma chunkAxesIndex_shape:
  "chunkAxesIndex shape zs = Inr ci1 \<Longrightarrow> length ci1 = length zs \<and> (\<forall>p\<in>set ci1. \<exists>e. p = [e])"
proof (induction zs arbitrary: ci1)
  case Nil
  then show ?case by simp
next
  case (Cons z zs)
  obtain ax idx where z: "z = (ax, idx)" by (cases z)
  from Cons.prems obtain nAxis l r where
    "chunkAxesIndex shape zs = Inr r" "ci1 = [(idx, l)] # r"
    unfolding z by (auto simp: ebind_eq_Inr)
  then show ?case using Cons.IH by auto
qed

lemma chunkAxesIndex_total:
  assumes "\<forall>d\<in>set shape. 0 \<le> d"
    and "\<forall>(ax, idx)\<in>set zs. 0 \<le> ax \<and> ax < int (length shape) \<and> slice_step idx \<noteq> Some 0"
  shows "\<exists>ci1. chunkAxesIndex shape zs = Inr ci1"
  using assms(2)
proof (induction zs)
  case Nil
  then show ?case by simp
next
  case (Cons z zs)
  obtain ax idx where z: "z = (ax, idx)" by (cases z)
  have ax: "0 \<le> ax" "ax < int (length shape)" "slice_step idx \<noteq> Some 0"
    using Cons.prems z by auto
  then have "0 \<le> shape ! nat ax" using assms(1) by simp
  then obtain l where "sliceLen idx (shape ! nat ax) = Inr l"
    using sliceLen_total [OF _ ax(3)] by blast
  moreover obtain r where "chunkAxesIndex shape zs = Inr r" using Cons by auto
  ultimately show ?case unfolding z using py_getitem_nth [OF ax(1,2)] by simp
qed

lemma product_lists_singletons:
  assumes "\<forall>p\<in>set ci1. \<exists>e. p = [e]"
  shows "product_lists (ci1 @ R) = map (\<lambda>r. map hd ci1 @ r) (product_lists R)"
  using assms
proof (induction ci1)
  case Nil
  then show ?case by simp
next
  case (Cons p ci1)
  then obtain e where "p = [e]" by auto
  then show ?case using Cons by (simp add: comp_def)
qed

lemma assignAxes_append:
  "assignAxes ao (zs1 @ zs2) st = ebind (assignAxes ao zs1 st) (assignAxes ao zs2)"
proof (induction zs1 arbitrary: st)
  case Nil
  then show ?case by simp
next
  case (Cons z zs1)
  obtain ax idx n where z: "z = (ax, idx, n)" by (cases z)
  obtain d s c where st: "st = (d, s, c)" by (cases st)
  show ?case unfolding z st
    by (cases "py_setitem d ax (SliceIdx idx)"; cases "py_setitem s ax (Some n)")
       (simp_all add: Cons.IH)
qed

lemma assignAxes_count:
  "assignAxes ao zs (d, s, c) = Inr (d', s', c') \<Longrightarrow>
     length d' = length d \<and> length s' = length s
     \<and> c' = c * prod_list (map (\<lambda>(ax, idx, n). n) (filter (\<lambda>(ax, idx, n). ax \<in> set ao) zs))"
proof (induction zs arbitrary: d s c)
  case Nil
  then show ?case by simp
next
  case (Cons z zs)
  obtain ax idx n where z: "z = (ax, idx, n)" by (cases z)
  from Cons.prems obtain d1 s1 where
    1: "py_setitem d ax (SliceIdx idx) = Inr d1" "py_setitem s ax (Some n) = Inr s1"
    and 2: "assignAxes ao zs (d1, s1, if ax \<in> set ao then c * n else c) = Inr (d', s', c')"
    unfolding z by (auto simp: ebind_eq_Inr)
  show ?case
    using Cons.IH [OF 2] py_setitem_Inr [OF 1(1)] py_setitem_Inr [OF 1(2)]
    unfolding z by (simp add: mult.assoc)
qed

lemma assignAxes_total:
  assumes "\<forall>(ax, idx, n)\<in>set zs. 0 \<le> ax \<and> ax < int L" "length d = L" "length s = L"
  shows "\<exists>d' s' c'. assignAxes ao zs (d, s, c) = Inr (d', s', c')"
  using assms
proof (induction zs arbitrary: d s c)
  case Nil
  then show ?case by simp
next
  case (Cons z zs)
  obtain ax idx n where z: "z = (ax, idx, n)" by (cases z)
  have ax: "0 \<le> ax" "ax < int (length d)" "ax < int (length s)" using Cons.prems z by auto
  have "\<exists>d' s' c'. assignAxes ao zs (d[nat ax := SliceIdx idx], s[nat ax := Some n],
      if ax \<in> set ao then c * n else c) = Inr (d', s', c')"
    using Cons.prems by (intro Cons.IH) auto
  then show ?case
    unfolding z using py_setitem_nth [OF ax(1,2)] py_setitem_nth [OF ax(1,3)] by simp
qed

lemma assignAxes_untouched:
  assumes "assignAxes ao zs (d, s, c) = Inr (d', s', c')"
    and "\<forall>(ax, idx, n)\<in>set zs. 0 \<le> ax \<and> nat ax \<noteq> k"
  shows "d' ! k = d ! k"
  using assms
proof (induction zs arbitrary: d s c)
  case Nil
  then show ?case by simp
next
  case (Cons z zs)
  obtain ax idx n where z: "z = (ax, idx, n)" by (cases z)
  have ax: "0 \<le> ax" "nat ax \<noteq> k" using Cons.prems(2) z by auto
  from Cons.prems(1) obtain d1 s1 where
    1: "py_setitem d ax (SliceIdx idx) = Inr d1" "py_setitem s ax (Some n) = Inr s1"
    and 2: "assignAxes ao zs (d1, s1, if ax \<in> set ao then c * n else c) = Inr (d', s', c')"
    unfolding z by (auto simp: ebind_eq_Inr)
  have "d1 = d[nat ax := SliceIdx idx]"
    using 1(1) ax(1) by (auto simp: py_setitem_def Let_def split: if_splits)
  then have "d1 ! k = d ! k" using ax(2) by simp
  moreover have "d' ! k = d1 ! k" using Cons.IH [OF 2] Cons.prems(2) by auto
  ultimately show ?case by simp
qed

lemma assignAxes_lookup:
  assumes "assignAxes ao (zip xs c2) (d, s, c) = Inr (d', s', c')"
    and "distinct xs" "\<forall>x\<in>set xs. 0 \<le> x \<and> x < int (length d)" "length c2 = length xs"
  shows "\<forall>i<length xs. d' ! nat (xs ! i) = SliceIdx (fst (c2 ! i))"
  using assms
proof (induction xs arbitrary: c2 d s c)
  case Nil
  then show ?case by simp
next
  case (Cons x xs)
  then obtain p c2' where c2: "c2 = p # c2'" by (cases c2) auto
  obtain idx n where p: "p = (idx, n)" by (cases p)
  have x: "0 \<le> x" "x < int (length d)" using Cons.prems by auto
  from Cons.prems(1) obtain d1 s1 where
    1: "py_setitem d x (SliceIdx idx) = Inr d1" "py_setitem s x (Some n) = Inr s1"
    and 2: "assignAxes ao (zip xs c2') (d1, s1, if x \<in> set ao then c * n else c) = Inr (d', s', c')"
    unfolding c2 p by (auto simp: ebind_eq_Inr)
  have d1: "d1 = d[nat x := SliceIdx idx]"
    using 1(1) x by (simp add: py_setitem_nth)
  have IH: "\<forall>i<length xs. d' ! nat (xs ! i) = SliceIdx (fst (c2' ! i))"
    using Cons.prems c2 d1 by (intro Cons.IH [OF 2]) auto
  have "\<forall>(ax, idx, n)\<in>set (zip xs c2'). 0 \<le> ax \<and> nat ax \<noteq> nat x"
  proof (clarify, rule conjI)
    fix ax idx n assume "(ax, idx, n) \<in> set (zip xs c2')"
    then have m: "ax \<in> set xs" by (rule set_zip_leftD)
    then show "0 \<le> ax" using Cons.prems(3) by simp
    have "ax \<noteq> x" using m Cons.prems(2) by auto
    then show "nat ax \<noteq> nat x" using x(1) \<open>0 \<le> ax\<close> by simp
  qed
  then have "d' ! nat x = d1 ! nat x" using assignAxes_untouched [OF 2] by blast
  then have h: "d' ! nat x = SliceIdx idx" using d1 x by simp
  show ?case
  proof (intro allI impI)
    fix i assume "i < length (x # xs)"
    then show "d' ! nat ((x # xs) ! i) = SliceIdx (fst (c2 ! i))"
      using h IH c2 p by (cases i) auto
  qed
qed

lemma productLoop_sound:
  "productLoop ao axes choices (d, s) = Inr chunks \<Longrightarrow>
     \<forall>c\<in>set chunks. \<exists>choice\<in>set choices. \<exists>d0 s0.
        assignAxes ao (zip axes choice) (d0, s0, 1) = Inr c"
proof (induction choices arbitrary: d s chunks)
  case Nil
  then show ?case by simp
next
  case (Cons ch choices)
  from Cons.prems obtain d1 s1 n1 rest where
    1: "assignAxes ao (zip axes ch) (d, s, 1) = Inr (d1, s1, n1)"
    and 2: "productLoop ao axes choices (d1, s1) = Inr rest"
    and 3: "chunks = (d1, s1, n1) # rest"
    by (auto simp: ebind_eq_Inr)
  show ?case unfolding 3 using 1 Cons.IH [OF 2] by auto
qed

lemma productLoop_all2:
  assumes "\<forall>choice\<in>set choices. \<forall>d s. length d = L \<longrightarrow> length s = L \<longrightarrow>
             (\<exists>c. assignAxes ao (zip axes choice) (d, s, 1) = Inr c \<and> Q choice c)"
    and "length d = L" "length s = L"
  shows "\<exists>chunks. productLoop ao axes choices (d, s) = Inr chunks \<and> list_all2 Q choices chunks"
  using assms
proof (induction choices arbitrary: d s)
  case Nil
  then show ?case by simp
next
  case (Cons ch choices)
  obtain d1 s1 n1 where 1: "assignAxes ao (zip axes ch) (d, s, 1) = Inr (d1, s1, n1)"
    and q: "Q ch (d1, s1, n1)"
    using Cons.prems by (metis list.set_intros(1) prod_cases3)
  have l: "length d1 = L" "length s1 = L"
    using assignAxes_count [OF 1] Cons.prems by simp_all
  obtain rest where 2: "productLoop ao axes choices (d1, s1) = Inr rest"
    and qs: "list_all2 Q choices rest"
    using Cons.IH [OF _ l] Cons.prems(1) by auto
  show ?case using 1 2 q qs by simp
qed

lemma prod_list_bound:
  fixes ns fs :: "int list"
  assumes "list_all2 (\<lambda>n f. 0 \<le> n \<and> n \<le> f) ns fs"
  shows "0 \<le> prod_list ns \<and> prod_list ns \<le> prod_list fs"
  using assms
proof (induction rule: list_all2_induct)
  case Nil
  then show ?case by simp
next
  case (Cons n ns f fs)
  then show ?case by (simp add: mult_mono)
qed

lemma sum_list_swap:
  fixes f :: "'a \<Rightarrow> 'b \<Rightarrow> 'c::comm_monoid_add"
  shows "(\<Sum>x\<leftarrow>xs. \<Sum>y\<leftarrow>ys. f x y) = (\<Sum>y\<leftarrow>ys. \<Sum>x\<leftarrow>xs. f x y)"
proof (induction xs)
  case Nil
  then show ?case by simp
next
  case (Cons x xs)
  then show ?case by (simp add: sum_list_addf)
qed

lemma mset_product_lists_Cons:
  "mset (product_lists (p # ch)) = (\<Sum>x\<leftarrow>p. image_mset (Cons x) (mset (product_lists ch)))"
  by (simp add: mset_concat comp_def)

lemma image_mset_sum_list:
  "image_mset f (\<Sum>x\<leftarrow>xs. g x) = (\<Sum>x\<leftarrow>xs. image_mset f (g x))"
  by (induction xs) simp_all

lemma sum_list_concat_map:
  fixes h :: "'b \<Rightarrow> 'c::comm_monoid_add"
  shows "(\<Sum>x\<leftarrow>concat (map g xs). h x) = (\<Sum>p\<leftarrow>xs. \<Sum>y\<leftarrow>g p. h y)"
  by (induction xs) simp_all

lemma sum_list_concat_nested:
  fixes h :: "'b \<Rightarrow> 'c::comm_monoid_add"
  shows "(\<Sum>x\<leftarrow>concat xss. h x) = (\<Sum>p\<leftarrow>xss. \<Sum>x\<leftarrow>p. h x)"
  by (induction xss) simp_all

lemma mset_product_concat:
  "mset (concat (map product_lists (product_lists Qs))) = mset (product_lists (map concat Qs))"
proof (induction Qs)
  case Nil
  then show ?case by simp
next
  case (Cons Q Qs)
  let ?PQ = "product_lists Qs"
  have a: "product_lists (Q # Qs) = concat (map (\<lambda>p. map (Cons p) ?PQ) Q)" by simp
  have "mset (concat (map product_lists (product_lists (Q # Qs))))
      = (\<Sum>c\<leftarrow>product_lists (Q # Qs). mset (product_lists c))"
    by (simp only: mset_concat map_map comp_def)
  also have "\<dots> = (\<Sum>p\<leftarrow>Q. \<Sum>y\<leftarrow>map (Cons p) ?PQ. mset (product_lists y))"
    unfolding a by (rule sum_list_concat_map)
  also have "\<dots> = (\<Sum>p\<leftarrow>Q. \<Sum>ch\<leftarrow>?PQ. mset (product_lists (p # ch)))"
    by (simp only: map_map comp_def)
  also have "\<dots> = (\<Sum>p\<leftarrow>Q. \<Sum>ch\<leftarrow>?PQ. \<Sum>x\<leftarrow>p. image_mset (Cons x) (mset (product_lists ch)))"
    by (simp only: mset_product_lists_Cons)
  also have "\<dots> = (\<Sum>p\<leftarrow>Q. \<Sum>x\<leftarrow>p. \<Sum>ch\<leftarrow>?PQ. image_mset (Cons x) (mset (product_lists ch)))"
    by (subst sum_list_swap) simp
  also have "\<dots> = (\<Sum>p\<leftarrow>Q. \<Sum>x\<leftarrow>p. image_mset (Cons x) (mset (concat (map product_lists ?PQ))))"
    by (simp add: mset_concat image_mset_sum_list comp_def)
  also have "\<dots> = (\<Sum>p\<leftarrow>Q. \<Sum>x\<leftarrow>p. image_mset (Cons x) (mset (product_lists (map concat Qs))))"
    by (simp only: Cons.IH)
  also have "\<dots> = mset (product_lists (map concat (Q # Qs)))"
    by (simp add: mset_concat comp_def sum_list_concat_nested)
  finally show ?case .
qed

lemma fullChunkIndex_structure:
  assumes "fullChunkIndex shape cap0 ca0 ao0 sl0 dflt = Inr (chunkIndex, ca, ao, nBuffer)"
    and "\<forall>d\<in>set shape. 0 \<le> d"
  shows "\<exists>sl ci1 ci2 fs.
      chunkIndexParameters shape cap0 ca0 ao0 sl0 dflt = Inr (max cap0 1, ca, ao, sl)
    \<and> chunkAxesIndex shape (zip ca sl) = Inr ci1
    \<and> chunkIndex = ci1 @ rev ci2 \<and> length ci1 = length ca \<and> (\<forall>p\<in>set ci1. \<exists>e. p = [e])
    \<and> length ci2 = length ao \<and> length fs = length ao
    \<and> (\<forall>i<length ao. piecesOK (shape ! nat (ao ! i)) (fs ! i) (ci2 ! i) \<and> 0 \<le> fs ! i)
    \<and> nBuffer = prod_list fs \<and> 0 \<le> nBuffer \<and> nBuffer \<le> max cap0 1
    \<and> (\<forall>ax rest. ao = ax # rest \<longrightarrow>
          (\<exists>b. splitAxis (max cap0 1) 1 1 (shape ! nat ax) = Inr (hd ci2, b)))"
proof -
  from assms(1) obtain cap sl ci1 nItems ci2 where
    p: "chunkIndexParameters shape cap0 ca0 ao0 sl0 dflt = Inr (cap, ca, ao, sl)"
    and c1: "chunkAxesIndex shape (zip ca sl) = Inr ci1"
    and c2: "orderAxesIndex shape cap ao (1, 1, []) = Inr (nItems, nBuffer, ci2)"
    and ci: "chunkIndex = ci1 @ rev ci2"
    unfolding fullChunkIndex_def by (auto simp: ebind_eq_Inr)
  note pf = chunkIndexParameters_facts [OF p]
  note af = axesOrder_facts [OF pf(3)]
  have cap1: "1 \<le> cap" using pf(1) by simp
  obtain new fs where
    r: "orderAxesIndex shape cap ao (1, 1, [])
           = Inr (1 * prod_list (map (\<lambda>ax. shape ! nat ax) ao), 1 * prod_list fs, [] @ new)"
    and l: "length new = length ao" "length fs = length ao"
    and ok: "\<forall>i<length ao. piecesOK (shape ! nat (ao ! i)) (fs ! i) (new ! i) \<and> 0 \<le> fs ! i"
    and inv: "0 \<le> (1::int) \<and> 1 \<le> cap \<and> ((1::int) \<le> cap \<longrightarrow> (1::int) = 1)
              \<longrightarrow> 0 \<le> 1 * prod_list fs \<and> 1 * prod_list fs \<le> cap"
    and h: "\<forall>ax rest. ao = ax # rest \<longrightarrow>
               (\<exists>b. splitAxis cap 1 1 (shape ! nat ax) = Inr (hd new, b))"
    using orderAxesIndex_ok [OF cap1 assms(2) af(3) zero_le_one, of 1 "[]"] by blast
  have e: "ci2 = new" "nBuffer = prod_list fs" using r c2 by simp_all
  have l1: "length ci1 = length ca" "\<forall>p\<in>set ci1. \<exists>e. p = [e]"
    using chunkAxesIndex_shape [OF c1] pf(2) by simp_all
  show ?thesis
    using p c1 ci l1 l ok inv h cap1 unfolding e pf(1) [symmetric]
    by (intro exI [of _ sl] exI [of _ ci1] exI [of _ new] exI [of _ fs]) simp
qed

lemma map_third_zip:
  "length xs = length ys \<Longrightarrow> map (\<lambda>(ax, idx, n). n) (zip xs ys) = map snd ys"
  by (induction xs ys rule: list_induct2) auto

lemma dense_chunk_choice:
  assumes "chunkIndexProduct (ci1 @ rev ci2) ca ao = Inr chunks"
    and "length ci1 = length ca" "\<forall>p\<in>set ci1. \<exists>e. p = [e]" "length ci2 = length ao"
    and "set ao \<inter> set ca = {}" and "c \<in> set chunks"
  shows "\<exists>r\<in>set (product_lists (rev ci2)). chunkCount c = prod_list (map snd r)"
proof -
  let ?axes = "ca @ rev ao"
  from assms(1) obtain d s where
    pl: "productLoop ao ?axes (product_lists (ci1 @ rev ci2)) (d, s) = Inr chunks"
    unfolding chunkIndexProduct_def Let_def by auto
  obtain choice d0 s0 where ch: "choice \<in> set (product_lists (ci1 @ rev ci2))"
    and as: "assignAxes ao (zip ?axes choice) (d0, s0, 1) = Inr c"
    using productLoop_sound [OF pl] assms(6) by blast
  obtain r where r: "r \<in> set (product_lists (rev ci2))" and choice: "choice = map hd ci1 @ r"
    using ch unfolding product_lists_singletons [OF assms(3)] by auto
  have lr: "length r = length ao"
    using in_set_product_lists_length [OF r] assms(4) by simp
  have z: "zip ?axes choice = zip ca (map hd ci1) @ zip (rev ao) r"
    unfolding choice using assms(2) by simp
  have f1: "filter (\<lambda>(ax, idx, n). ax \<in> set ao) (zip ca (map hd ci1)) = []"
    using assms(5) by (auto simp: filter_empty_conv dest: set_zip_leftD)
  have f2: "filter (\<lambda>(ax, idx, n). ax \<in> set ao) (zip (rev ao) r) = zip (rev ao) r"
    by (auto simp: filter_id_conv dest: set_zip_leftD)
  obtain d' s' c' where c: "c = (d', s', c')" by (cases c)
  have "c' = 1 * prod_list (map (\<lambda>(ax, idx, n). n) (filter (\<lambda>(ax, idx, n). ax \<in> set ao) (zip ?axes choice)))"
    using assignAxes_count [OF as [unfolded c]] by simp
  also have "\<dots> = prod_list (map snd r)"
    unfolding z using f1 f2 lr by (simp add: map_third_zip)
  finally show ?thesis using r c by (auto simp: chunkCount_def)
qed

lemma piecesOK_bound:
  "piecesOK n f pieces \<Longrightarrow> p \<in> set pieces \<Longrightarrow> 0 \<le> snd p \<and> snd p \<le> f"
  unfolding piecesOK_def by (cases p) (auto simp del: indexRows.simps)

lemma prod_list_rev_int: "prod_list (rev xs) = prod_list (xs :: int list)"
  by (induction xs) (simp_all add: mult.commute)

lemma choice_bound:
  assumes "r \<in> set (product_lists (rev ci2))" "length ci2 = length ao" "length fs = length ao"
    and "\<forall>i<length ao. piecesOK (shape ! nat (ao ! i)) (fs ! i) (ci2 ! i) \<and> 0 \<le> fs ! i"
  shows "0 \<le> prod_list (map snd r) \<and> prod_list (map snd r) \<le> prod_list fs"
proof -
  have m: "list_all2 (\<lambda>x ys. x \<in> set ys) r (rev ci2)"
    using assms(1) by (simp add: product_lists_set)
  have "list_all2 (\<lambda>n f. 0 \<le> n \<and> n \<le> f) (map snd r) (rev fs)"
    unfolding list_all2_conv_all_nth
  proof (intro conjI allI impI)
    show "length (map snd r) = length (rev fs)"
      using list_all2_lengthD [OF m] assms(2,3) by simp
  next
    fix i assume "i < length (map snd r)"
    then have i: "i < length ao" using list_all2_lengthD [OF m] assms(2) by simp
    let ?j = "length ao - Suc i"
    have j: "?j < length ao" using i by simp
    have "r ! i \<in> set (rev ci2 ! i)" using m i assms(2) by (simp add: list_all2_conv_all_nth)
    then have "r ! i \<in> set (ci2 ! ?j)" using i assms(2) by (simp add: rev_nth)
    then have "0 \<le> snd (r ! i) \<and> snd (r ! i) \<le> fs ! ?j"
      using assms(4) j piecesOK_bound by blast
    then show "0 \<le> map snd r ! i" "map snd r ! i \<le> rev fs ! i"
      using i assms(3) list_all2_lengthD [OF m] assms(2) by (simp_all add: rev_nth)
  qed
  then show ?thesis using prod_list_bound [of "map snd r" "rev fs"] by (simp add: prod_list_rev_int)
qed

lemma product_lists_map2:
  assumes "length as = length pss"
  shows "product_lists (map2 (\<lambda>a ps. map (g a) ps) as pss)
       = map (\<lambda>r. map2 g as r) (product_lists pss)"
  using assms
proof (induction as pss rule: list_induct2)
  case Nil
  then show ?case by simp
next
  case (Cons a as ps pss)
  then show ?case by (simp add: comp_def map_concat)
qed

lemma sum_product_lists:
  fixes g :: "'a \<Rightarrow> int"
  shows "(\<Sum>r\<leftarrow>product_lists xss. prod_list (map g r)) = prod_list (map (\<lambda>xs. \<Sum>x\<leftarrow>xs. g x) xss)"
proof (induction xss)
  case Nil
  then show ?case by simp
next
  case (Cons xs xss)
  have "(\<Sum>r\<leftarrow>product_lists (xs # xss). prod_list (map g r))
      = (\<Sum>x\<leftarrow>xs. \<Sum>r\<leftarrow>product_lists xss. g x * prod_list (map g r))"
    by (simp add: sum_list_concat_map comp_def)
  also have "\<dots> = (\<Sum>x\<leftarrow>xs. g x * (\<Sum>r\<leftarrow>product_lists xss. prod_list (map g r)))"
    by (simp add: sum_list_const_mult)
  also have "\<dots> = (\<Sum>x\<leftarrow>xs. g x) * (\<Sum>r\<leftarrow>product_lists xss. prod_list (map g r))"
    by (simp add: sum_list_mult_const)
  finally show ?case using Cons.IH by simp
qed

lemma list_all2_map_eq:
  "list_all2 (\<lambda>x y. g y = f x) xs ys \<Longrightarrow> map g ys = map f xs"
  by (induction rule: list_all2_induct) simp_all

lemma piecesOK_sum:
  assumes "piecesOK n f pieces" "0 \<le> n"
  shows "sum_list (map snd pieces) = n"
proof -
  have "\<forall>p\<in>set pieces. snd p = int (length ((\<lambda>(slc, l). indexRows (SliceIdx slc) n) p))"
    using assms(1) unfolding piecesOK_def by (auto simp del: indexRows.simps)
  then have "sum_list (map snd pieces)
      = sum_list (map (\<lambda>p. int (length ((\<lambda>(slc, l). indexRows (SliceIdx slc) n) p))) pieces)"
    by (intro arg_cong [of _ _ sum_list] map_cong) auto
  also have "\<dots> = int (length (concat (map (\<lambda>(slc, l). indexRows (SliceIdx slc) n) pieces)))"
    by (simp add: length_concat comp_def sum_list_of_nat [symmetric] del: indexRows.simps) 
  also have "\<dots> = int (length (range_list n))"
    using assms(1) unfolding piecesOK_def by simp
  also have "\<dots> = n" using assms(2) by (simp add: range_list_upto)
  finally show ?thesis .
qed

lemma dense_assign:
  assumes "length c1 = length ca" "length r = length ao" "distinct ao" "set ao \<inter> set ca = {}"
    and "\<forall>ax\<in>set ao. 0 \<le> ax \<and> ax < int L" "\<forall>ax\<in>set ca. 0 \<le> ax \<and> ax < int L"
    and "length d = L" "length s = L"
  shows "\<exists>c. assignAxes ao (zip (ca @ rev ao) (c1 @ r)) (d, s, 1) = Inr c
            \<and> chunkCount c = prod_list (map snd r)
            \<and> chunkRows shape (rev ao) c
               = product_lists (map2 (\<lambda>ax p. indexRows (SliceIdx (fst p)) (shape ! nat ax)) (rev ao) r)"
proof -
  have z: "zip (ca @ rev ao) (c1 @ r) = zip ca c1 @ zip (rev ao) r"
    using assms(1) by simp
  have "\<forall>(ax, idx, n)\<in>set (zip (ca @ rev ao) (c1 @ r)). 0 \<le> ax \<and> ax < int L"
    using assms(5,6) by (auto dest!: set_zip_leftD)
  then obtain d' s' c' where
    a: "assignAxes ao (zip (ca @ rev ao) (c1 @ r)) (d, s, 1) = Inr (d', s', c')"
    using assignAxes_total [OF _ assms(7,8)] by blast
  from a obtain d1 s1 n1 where
    a1: "assignAxes ao (zip ca c1) (d, s, 1) = Inr (d1, s1, n1)"
    and a2: "assignAxes ao (zip (rev ao) r) (d1, s1, n1) = Inr (d', s', c')"
    unfolding z assignAxes_append by (auto simp: ebind_eq_Inr)
  have l1: "length d1 = L" using assignAxes_count [OF a1] assms(7) by simp
  have lk: "\<forall>i<length (rev ao). d' ! nat (rev ao ! i) = SliceIdx (fst (r ! i))"
    using assms(2,3,5) l1 by (intro assignAxes_lookup [OF a2]) auto
  have f1: "filter (\<lambda>(ax, idx, n). ax \<in> set ao) (zip ca c1) = []"
    using assms(4) by (auto simp: filter_empty_conv dest: set_zip_leftD)
  have f2: "filter (\<lambda>(ax, idx, n). ax \<in> set ao) (zip (rev ao) r) = zip (rev ao) r"
    by (auto simp: filter_id_conv dest: set_zip_leftD)
  have "c' = 1 * prod_list (map (\<lambda>(ax, idx, n). n)
                 (filter (\<lambda>(ax, idx, n). ax \<in> set ao) (zip (ca @ rev ao) (c1 @ r))))"
    using assignAxes_count [OF a] by simp
  also have "\<dots> = prod_list (map snd r)"
    unfolding z using f1 f2 assms(2) by (simp add: map_third_zip)
  finally have cnt: "chunkCount (d', s', c') = prod_list (map snd r)"
    by (simp add: chunkCount_def)
  have "map (\<lambda>ax. indexRows (d' ! nat ax) (shape ! nat ax)) (rev ao)
      = map2 (\<lambda>ax p. indexRows (SliceIdx (fst p)) (shape ! nat ax)) (rev ao) r"
    using lk assms(2) by (intro nth_equalityI) (simp_all del: indexRows.simps)
  then have "chunkRows shape (rev ao) (d', s', c')
      = product_lists (map2 (\<lambda>ax p. indexRows (SliceIdx (fst p)) (shape ! nat ax)) (rev ao) r)"
    by (simp add: chunkRows_def del: indexRows.simps)
  then show ?thesis using a cnt by blast
qed

declare indexRows.simps [simp del]

lemma upto_distinct: "distinct (range_list n)"
  by (simp add: range_list_upto)

lemma py_range_closed:
  "0 < s \<Longrightarrow> py_range a b s = map (\<lambda>k. a + int k * s) [0..<nat ((b - a + s - 1) div s)]"
proof (induction a b s rule: py_range.induct)
  case (1 a b s)
  show ?case
  proof (cases "a < b")
    case True
    have d: "(b - a + s - 1) div s = (b - (a + s) + s - 1) div s + 1"
      using div_add_self2 [of s "b - a - 1"] "1.prems" by (simp add: algebra_simps)
    have nn: "0 \<le> (b - (a + s) + s - 1) div s"
      using True "1.prems" by (simp add: pos_imp_zdiv_nonneg_iff)
    have n: "nat ((b - a + s - 1) div s) = Suc (nat ((b - (a + s) + s - 1) div s))"
      unfolding d using nn by simp
    have "py_range a b s = a # py_range (a + s) b s"
      using True "1.prems" by (simp add: py_range_Cons)
    also have "py_range (a + s) b s
        = map (\<lambda>k. a + s + int k * s) [0..<nat ((b - (a + s) + s - 1) div s)]"
      using "1.IH" True "1.prems" by simp
    finally show ?thesis
      unfolding n by (simp add: map_upt_Suc algebra_simps del: upt_Suc)
  next
    case False
    then have "(b - a + s - 1) div s \<le> 0"
      using "1.prems" pos_imp_zdiv_pos_iff [of s "b - a + s - 1"] by simp
    then show ?thesis using False "1.prems" by (simp add: py_range_Nil)
  qed
qed

lemma ceil_unique:
  fixes N n s :: int
  assumes "0 < s" "(n - 1) * s < N" "N \<le> n * s"
  shows "(N + s - 1) div s = n"
proof -
  have "N + s - 1 = s * n + (N + s - 1 - n * s)" by (simp add: algebra_simps)
  moreover have "0 \<le> N + s - 1 - n * s" using assms(2) by (simp add: algebra_simps)
  moreover have "N + s - 1 - n * s < s" using assms(3) by simp
  ultimately show ?thesis using assms(1) by (metis int_div_pos_eq)
qed

lemma first_axis_pieces:
  fixes cap N :: int
  assumes "1 \<le> cap" "cap < N"
  defines "n \<equiv> N div cap + int_bool (N mod cap)"
  defines "step \<equiv> N div n + int_bool (N mod n)"
  shows "splitAxis cap 1 nBuffer N
       = Inr (map (\<lambda>k. (Slice (Some (int k * step)) (Some (min (int k * step + step) N)) (Some 1),
                         min (int k * step + step) N - int k * step)) [0..<nat n],
              nBuffer * step)"
    and "1 \<le> step" "step \<le> cap" "(n - 1) * step < N" "N \<le> n * step"
proof -
  have h: "(1::int) \<le> cap" "cap < 1 * N" "(0::int) \<le> 1" "0 \<le> N" using assms by simp_all
  note st = split_step [OF assms(1) h, simplified, folded n_def, folded step_def]
  show "1 \<le> step" "step \<le> cap" "(n - 1) * step < N" "N \<le> n * step"
    using st by simp_all
  have c: "(N + step - 1) div step = n"
    using st by (intro ceil_unique) simp_all
  have "splitAxis cap 1 nBuffer N
      = ebind (chunkIndexGen 0 N (Some step)) (\<lambda>idxAxis. Inr (idxAxis, nBuffer * step))"
    using splitAxis_split [OF assms(1) h, of nBuffer] by (simp add: n_def step_def)
  also have "chunkIndexGen 0 N (Some step)
      = Inr (map (\<lambda>a. (Slice (Some a) (Some (min (a + step) N)) (Some 1), min (a + step) N - a))
            (py_range 0 N step))"
    using st by (intro chunkIndexGen_pos) simp
  also have "py_range 0 N step = map (\<lambda>k. 0 + int k * step) [0..<nat ((N - 0 + step - 1) div step)]"
    using st by (intro py_range_closed) simp
  finally show "splitAxis cap 1 nBuffer N
       = Inr (map (\<lambda>k. (Slice (Some (int k * step)) (Some (min (int k * step + step) N)) (Some 1),
                         min (int k * step + step) N - int k * step)) [0..<nat n],
              nBuffer * step)"
    using c by (simp add: comp_def)
qed

lemma py_setitem_set:
  "py_setitem xs i v = Inr ys \<Longrightarrow> set ys \<subseteq> insert v (set xs)"
  by (auto simp: py_setitem_def Let_def split: if_splits dest: subsetD [OF set_update_subset_insert])

lemma maskLoop_counts:
  "maskLoop ao mi la en (idxAxis, chunkShape, ci) = Inr ci' \<Longrightarrow>
     \<forall>c. Some c \<in> set ci' \<longrightarrow>
        Some c \<in> set ci \<or> (\<exists>(i, idx, nidx)\<in>set en. chunkCount c = nidx)"
proof (induction en arbitrary: idxAxis chunkShape ci)
  case Nil
  then show ?case by simp
next
  case (Cons e en)
  obtain i idx nidx where e: "e = (i, idx, nidx)" by (cases e)
  from Cons.prems obtain idxAxis' chunkShape' ci1 where
    1: "py_setitem ci (int i) (Some (idxAxis', chunkShape', nidx)) = Inr ci1"
    and 2: "maskLoop ao mi la en (idxAxis', chunkShape', ci1) = Inr ci'"
    unfolding e by (auto simp: ebind_eq_Inr)
  show ?case
  proof (intro allI impI)
    fix c assume "Some c \<in> set ci'"
    then consider "Some c \<in> set ci1" | "\<exists>(i, idx, nidx)\<in>set en. chunkCount c = nidx"
      using Cons.IH [OF 2] by blast
    then show "Some c \<in> set ci \<or> (\<exists>(i, idx, nidx)\<in>set (e # en). chunkCount c = nidx)"
    proof cases
      case 1
      then have "Some c = Some (idxAxis', chunkShape', nidx) \<or> Some c \<in> set ci"
        using py_setitem_set [OF \<open>py_setitem ci (int i) (Some (idxAxis', chunkShape', nidx)) = Inr ci1\<close>]
        by auto
      then show ?thesis unfolding e by (auto simp: chunkCount_def)
    next
      case 2
      then show ?thesis by auto
    qed
  qed
qed

lemma maskedChunkIndex_Some_unfold:
  assumes "maskedChunkIndex shape cap0 (Some msk) ca0 ao0 sl0 dflt = Inr (chunkIndex, ca, ao, nMax)"
  shows "\<exists>sl idxAxis cs0 ind0 gen.
      chunkIndexParameters shape cap0 ca0 ao0 sl0 ''F'' = Inr (nMax, ca, ao, sl)
    \<and> mask_ndim msk = Inr (length ao)
    \<and> chunkAxesAssign shape (zip ca sl)
          (replicate (length shape) (SliceIdx (Slice None None None)), map Some shape)
        = Inr (idxAxis, cs0)
    \<and> py_getitem (mask_index msk) 0 = Inr ind0
    \<and> chunkIndexGen 0 (int (length ind0)) (Some nMax) = Inr gen
    \<and> maskLoop ao (mask_index msk) (intListIndexAxis shape ao) (zip [0..<length gen] gen)
              (idxAxis, (case intListIndexAxis shape ao of
                   None \<Rightarrow> map snd (filter (\<lambda>(i, s). int i \<notin> set ao) (zip [0..<length cs0] cs0))
                 | Some l \<Rightarrow> py_insert (map snd (filter (\<lambda>(i, s). int i \<notin> set ao)
                                (zip [0..<length cs0] cs0))) l None),
               replicate (nat (int (length ind0) div nMax + int_bool (int (length ind0) mod nMax))) None)
            = Inr chunkIndex"
  using assms unfolding maskedChunkIndex_def Let_def
  by (auto simp: ebind_eq_Inr py_floordiv_def py_mod_def split: if_splits intro!: exI)

lemma masked_count_bound:
  assumes "maskedChunkIndex shape cap0 (Some msk) ca0 ao0 sl0 dflt = Inr (chunkIndex, ca, ao, nMax)"
    and "Some c \<in> set chunkIndex"
  shows "nMax = max cap0 1 \<and> 0 \<le> chunkCount c \<and> chunkCount c \<le> nMax"
proof -
  obtain sl idxAxis cs0 ind0 gen where
    p: "chunkIndexParameters shape cap0 ca0 ao0 sl0 ''F'' = Inr (nMax, ca, ao, sl)"
    and "chunkAxesAssign shape (zip ca sl)
          (replicate (length shape) (SliceIdx (Slice None None None)), map Some shape)
        = Inr (idxAxis, cs0)"
    and "py_getitem (mask_index msk) 0 = Inr ind0"
    and g: "chunkIndexGen 0 (int (length ind0)) (Some nMax) = Inr gen"
    and m: "maskLoop ao (mask_index msk) (intListIndexAxis shape ao) (zip [0..<length gen] gen)
              (idxAxis, (case intListIndexAxis shape ao of
                   None \<Rightarrow> map snd (filter (\<lambda>(i, s). int i \<notin> set ao) (zip [0..<length cs0] cs0))
                 | Some l \<Rightarrow> py_insert (map snd (filter (\<lambda>(i, s). int i \<notin> set ao)
                                (zip [0..<length cs0] cs0))) l None),
               replicate (nat (int (length ind0) div nMax + int_bool (int (length ind0) mod nMax))) None)
            = Inr chunkIndex"
    using maskedChunkIndex_Some_unfold [OF assms(1)] by blast
  have n: "nMax = max cap0 1" using chunkIndexParameters_facts(1) [OF p] .
  then have n1: "1 \<le> nMax" by simp
  obtain pieces where "chunkIndexGen 0 (int (length ind0)) (Some nMax) = Inr pieces"
    "piecesOK (int (length ind0)) nMax pieces"
    using chunkIndexGen_piecesOK [OF n1, of "int (length ind0)"] by auto
  then have ok: "piecesOK (int (length ind0)) nMax gen" using g by simp
  have "Some c \<in> set (replicate (nat (int (length ind0) div nMax
            + int_bool (int (length ind0) mod nMax))) (None :: chunk option))
       \<or> (\<exists>(i, idx, nidx)\<in>set (zip [0..<length gen] gen). chunkCount c = nidx)"
    using maskLoop_counts [OF m] assms(2) by blast
  then obtain i idx nidx where "(i, idx, nidx) \<in> set (zip [0..<length gen] gen)" "chunkCount c = nidx"
    by fastforce
  then have "(idx, nidx) \<in> set gen" "chunkCount c = nidx" by (auto dest: set_zip_rightD)
  then show ?thesis using piecesOK_bound [OF ok, of "(idx, nidx)"] n by simp
qed

lemma dense_count_bound:
  assumes "fullChunkIndex shape cap0 ca0 ao0 sl0 dflt = Inr (chunkIndex, ca, ao, nBuffer)"
    and "\<forall>d\<in>set shape. 0 \<le> d"
    and "chunkIndexProduct chunkIndex ca ao = Inr chunks" and "c \<in> set chunks"
  shows "0 \<le> chunkCount c \<and> chunkCount c \<le> nBuffer \<and> nBuffer \<le> max cap0 1"
proof -
  obtain sl ci1 ci2 fs where
    p: "chunkIndexParameters shape cap0 ca0 ao0 sl0 dflt = Inr (max cap0 1, ca, ao, sl)"
    and ci: "chunkIndex = ci1 @ rev ci2" and l1: "length ci1 = length ca"
    and sg: "\<forall>p\<in>set ci1. \<exists>e. p = [e]"
    and l2: "length ci2 = length ao" "length fs = length ao"
    and ok: "\<forall>i<length ao. piecesOK (shape ! nat (ao ! i)) (fs ! i) (ci2 ! i) \<and> 0 \<le> fs ! i"
    and nb: "nBuffer = prod_list fs" "nBuffer \<le> max cap0 1"
    using fullChunkIndex_structure [OF assms(1,2)] by blast
  note af = axesOrder_facts [OF chunkIndexParameters_facts(3) [OF p]]
  obtain r where r: "r \<in> set (product_lists (rev ci2))" "chunkCount c = prod_list (map snd r)"
    using dense_chunk_choice [OF assms(3) [unfolded ci] l1 sg l2(1) af(2) assms(4)] by blast
  show ?thesis using choice_bound [OF r(1) l2 ok] r(2) nb by simp
qed

lemma map_nth_upto: "m \<le> length xs \<Longrightarrow> map (\<lambda>i. xs ! nat i) [0..int m - 1] = take m xs"
proof (induction m)
  case 0
  then show ?case by simp
next
  case (Suc m)
  have "[0..int (Suc m) - 1] = [0..int m - 1] @ [int m]"
    using upto_rec2 [of 0 "int m"] by simp
  then show ?case using Suc by (simp add: take_Suc_conv_app_nth)
qed

lemma getslice_prefix:
  assumes "0 \<le> k" "k \<le> int (length rows)"
  shows "getslice rows (Slice None (Some k) None) = Inr (take (nat k) rows)"
proof -
  have "indices (Slice None (Some k) None) (int (length rows)) = Inr (0, k, 1)"
    using assms by (simp add: indices_def adjust_bound_def)
  moreover have "map (\<lambda>i. rows ! nat i) [0..k - 1] = take (nat k) rows"
    using map_nth_upto [of "nat k" rows] assms by simp
  ultimately show ?thesis by (simp add: getslice_def py_range_step1)
qed

lemma getslice_rows:
  assumes "indices slc (int (length xs)) = Inr (a, b, st)"
  shows "getslice xs slc = Inr (map (\<lambda>i. xs ! nat i) (indexRows (SliceIdx slc) (int (length xs))))"
  using assms by (simp add: getslice_def indexRows.simps)

lemma maskAssign_total:
  assumes "\<forall>(ax, ind)\<in>set zs. 0 \<le> ax \<and> ax < int (length idxAxis)
             \<and> (\<exists>sub. getslice ind idx = Inr sub)"
  shows "\<exists>idxAxis'. maskAssign zs idx idxAxis = Inr idxAxis' \<and> length idxAxis' = length idxAxis"
  using assms
proof (induction zs arbitrary: idxAxis)
  case Nil
  then show ?case by simp
next
  case (Cons z zs)
  obtain ax ind where z: "z = (ax, ind)" by (cases z)
  obtain sub where s: "getslice ind idx = Inr sub" and ax: "0 \<le> ax" "ax < int (length idxAxis)"
    using Cons.prems z by auto
  have "\<exists>idxAxis'. maskAssign zs idx (idxAxis[nat ax := ListIdx sub]) = Inr idxAxis'
      \<and> length idxAxis' = length (idxAxis[nat ax := ListIdx sub])"
    using Cons.prems by (intro Cons.IH) auto
  then show ?case unfolding z using s py_setitem_nth [OF ax] by simp
qed

lemma maskAssign_untouched:
  assumes "maskAssign zs idx idxAxis = Inr idxAxis'"
    and "\<forall>(ax, ind)\<in>set zs. 0 \<le> ax \<and> nat ax \<noteq> k"
  shows "idxAxis' ! k = idxAxis ! k"
  using assms
proof (induction zs arbitrary: idxAxis)
  case Nil
  then show ?case by simp
next
  case (Cons z zs)
  obtain ax ind where z: "z = (ax, ind)" by (cases z)
  have ax: "0 \<le> ax" "nat ax \<noteq> k" using Cons.prems(2) z by auto
  from Cons.prems(1) obtain sub d1 where
    1: "getslice ind idx = Inr sub" "py_setitem idxAxis ax (ListIdx sub) = Inr d1"
    and 2: "maskAssign zs idx d1 = Inr idxAxis'"
    unfolding z by (auto simp: ebind_eq_Inr)
  have "d1 = idxAxis[nat ax := ListIdx sub]"
    using 1(2) ax(1) by (auto simp: py_setitem_def Let_def split: if_splits)
  then have "d1 ! k = idxAxis ! k" using ax(2) by simp
  moreover have "idxAxis' ! k = d1 ! k" using Cons.IH [OF 2] Cons.prems(2) by auto
  ultimately show ?case by simp
qed

lemma maskAssign_lookup:
  assumes "maskAssign (zip xs mi) idx idxAxis = Inr idxAxis'"
    and "distinct xs" "\<forall>x\<in>set xs. 0 \<le> x \<and> x < int (length idxAxis)" "length mi = length xs"
  shows "\<forall>j<length xs. getslice (mi ! j) idx = Inr (case idxAxis' ! nat (xs ! j) of ListIdx l \<Rightarrow> l | _ \<Rightarrow> [])
             \<and> (\<exists>l. idxAxis' ! nat (xs ! j) = ListIdx l)"
  using assms
proof (induction xs arbitrary: mi idxAxis)
  case Nil
  then show ?case by simp
next
  case (Cons x xs)
  then obtain ind mi' where mi: "mi = ind # mi'" by (cases mi) auto
  have x: "0 \<le> x" "x < int (length idxAxis)" using Cons.prems by auto
  from Cons.prems(1) obtain sub d1 where
    1: "getslice ind idx = Inr sub" "py_setitem idxAxis x (ListIdx sub) = Inr d1"
    and 2: "maskAssign (zip xs mi') idx d1 = Inr idxAxis'"
    unfolding mi by (auto simp: ebind_eq_Inr)
  have d1: "d1 = idxAxis[nat x := ListIdx sub]"
    using 1(2) x by (simp add: py_setitem_nth)
  have IH: "\<forall>j<length xs. getslice (mi' ! j) idx = Inr (case idxAxis' ! nat (xs ! j) of ListIdx l \<Rightarrow> l | _ \<Rightarrow> [])
             \<and> (\<exists>l. idxAxis' ! nat (xs ! j) = ListIdx l)"
    using Cons.prems mi d1 by (intro Cons.IH [OF 2]) auto
  have "\<forall>(ax, ind)\<in>set (zip xs mi'). 0 \<le> ax \<and> nat ax \<noteq> nat x"
  proof (clarify, rule conjI)
    fix ax ind assume "(ax, ind) \<in> set (zip xs mi')"
    then have m: "ax \<in> set xs" by (rule set_zip_leftD)
    then show "0 \<le> ax" using Cons.prems(3) by simp
    have "ax \<noteq> x" using m Cons.prems(2) by auto
    then show "nat ax \<noteq> nat x" using x(1) \<open>0 \<le> ax\<close> by simp
  qed
  then have "idxAxis' ! nat x = d1 ! nat x" using maskAssign_untouched [OF 2] by blast
  then have h: "idxAxis' ! nat x = ListIdx sub" using d1 x by simp
  show ?case
  proof (intro allI impI)
    fix j assume "j < length (x # xs)"
    then show "getslice ((mi) ! j) idx = Inr (case idxAxis' ! nat ((x # xs) ! j) of ListIdx l \<Rightarrow> l | _ \<Rightarrow> [])
             \<and> (\<exists>l. idxAxis' ! nat ((x # xs) ! j) = ListIdx l)"
      using h IH mi 1(1) by (cases j) auto
  qed
qed

lemma chunkAxesAssign_total:
  assumes "\<forall>d\<in>set shape. 0 \<le> d"
    and "\<forall>(ax, idx)\<in>set zs. 0 \<le> ax \<and> ax < int (length shape) \<and> slice_step idx \<noteq> Some 0"
    and "length idxAxis = length shape" "length cs = length shape"
  shows "\<exists>idxAxis' cs'. chunkAxesAssign shape zs (idxAxis, cs) = Inr (idxAxis', cs')
           \<and> length idxAxis' = length shape \<and> length cs' = length shape"
  using assms(2-)
proof (induction zs arbitrary: idxAxis cs)
  case Nil
  then show ?case by simp
next
  case (Cons z zs)
  obtain ax idx where z: "z = (ax, idx)" by (cases z)
  have ax: "0 \<le> ax" "ax < int (length shape)" "slice_step idx \<noteq> Some 0"
    using Cons.prems z by auto
  then have "0 \<le> shape ! nat ax" using assms(1) by simp
  then obtain l where l: "sliceLen idx (shape ! nat ax) = Inr l"
    using sliceLen_total [OF _ ax(3)] by blast
  have a1: "ax < int (length idxAxis)" "ax < int (length cs)" using ax Cons.prems by simp_all
  have "\<exists>idxAxis' cs'. chunkAxesAssign shape zs (idxAxis[nat ax := SliceIdx idx], cs[nat ax := Some l])
           = Inr (idxAxis', cs') \<and> length idxAxis' = length shape \<and> length cs' = length shape"
    using Cons.prems by (intro Cons.IH) auto
  then show ?case
    unfolding z using py_getitem_nth [OF ax(1,2)] l py_setitem_nth [OF ax(1) a1(1)]
      py_setitem_nth [OF ax(1) a1(2)] by simp
qed

lemma consecutive_last:
  "consecutive xs \<Longrightarrow> xs \<noteq> [] \<Longrightarrow> last xs = hd xs + int (length xs) - 1"
  by (induction xs rule: consecutive.induct) simp_all

lemma length_le_range:
  assumes "distinct ao" "\<forall>ax\<in>set ao. 0 \<le> ax \<and> ax < int n"
  shows "length ao \<le> n"
proof -
  have "set ao \<subseteq> int ` {0..<n}"
  proof
    fix x assume "x \<in> set ao"
    then have "0 \<le> x \<and> x < int n" using assms(2) by simp
    then have "x = int (nat x) \<and> nat x < n" by (simp add: nat_less_iff)
    then show "x \<in> int ` {0..<n}" by (intro image_eqI [of _ _ "nat x"]) auto
  qed
  then have "card (set ao) \<le> card (int ` {0..<n})" by (intro card_mono) simp_all
  also have "\<dots> \<le> n" using card_image_le [of "{0..<n}" int] by simp
  finally show ?thesis using assms(1) by (simp add: distinct_card)
qed

lemma intListIndexAxis_range:
  assumes "distinct ao" "ao \<noteq> []" "\<forall>ax\<in>set ao. 0 \<le> ax \<and> ax < int n"
  shows "\<exists>l. intListIndexAxis shape ao = Some l \<and> 0 \<le> l \<and> l + int (length ao) \<le> int n"
proof (cases "length ao = 1")
  case True
  then obtain a where "ao = [a]" by (cases ao) auto
  then show ?thesis using assms(3) by (simp add: intListIndexAxis_def)
next
  case False
  then have l2: "length ao \<noteq> 0" "length ao \<noteq> 1" using assms(2) by simp_all
  show ?thesis
  proof (cases "consecutive (sort ao)")
    case True
    let ?xs = "sort ao"
    have ne: "?xs \<noteq> []" using assms(2) by (metis length_0_conv length_sort)
    have "last ?xs = hd ?xs + int (length ?xs) - 1" using consecutive_last [OF True ne] .
    moreover have "last ?xs \<in> set ao" using ne last_in_set [of ?xs] by simp
    moreover have "hd ?xs = Min (set ao)"
    proof -
      have "hd ?xs \<in> set ?xs" using ne by (rule hd_in_set)
      moreover have "\<forall>y\<in>set ?xs. hd ?xs \<le> y"
        using sorted_sort [of ao] ne by (cases ?xs) auto
      ultimately show ?thesis by (intro Min_eqI [symmetric]) auto
    qed
    moreover have "Min (set ao) \<in> set ao" using assms(2) by (intro Min_in) auto
    ultimately have "Min (set ao) + int (length ao) - 1 \<in> set ao" "Min (set ao) \<in> set ao"
      by simp_all
    then have "Min (set ao) + int (length ao) - 1 < int n" "0 \<le> Min (set ao)"
      using assms(3) by blast+
    then have "0 \<le> Min (set ao) \<and> Min (set ao) + int (length ao) \<le> int n"
      by simp
    then show ?thesis using l2 True by (simp add: intListIndexAxis_def)
  next
    case nc: False
    have "length ao \<le> n" using length_le_range [OF assms(1,3)] .
    then show ?thesis using l2 nc by (simp add: intListIndexAxis_def)
  qed
qed

lemma length_filter_not_in:
  assumes "distinct ao" "\<forall>ax\<in>set ao. 0 \<le> ax \<and> ax < int n" "length cs0 = n"
  shows "length (filter (\<lambda>(i, s). int i \<notin> set ao) (zip [0..<n] cs0)) + length ao = n"
proof -
  have "map fst (filter (\<lambda>(i, s). int i \<notin> set ao) (zip [0..<n] cs0))
      = filter (\<lambda>i. int i \<notin> set ao) (map fst (zip [0..<n] cs0))"
    by (simp add: filter_map comp_def split_def)
  moreover have "map fst (zip [0..<n] cs0) = [0..<n]" using assms(3) by simp
  ultimately have "length (map fst (filter (\<lambda>(i, s). int i \<notin> set ao) (zip [0..<n] cs0)))
      = length (filter (\<lambda>i. int i \<notin> set ao) [0..<n])"
    by simp
  then have "length (filter (\<lambda>(i, s). int i \<notin> set ao) (zip [0..<n] cs0))
      = length (filter (\<lambda>i. int i \<notin> set ao) [0..<n])"
    by simp
  moreover have "length (filter (\<lambda>i. int i \<in> set ao) [0..<n]) = length ao"
  proof -
    have "distinct (filter (\<lambda>i. int i \<in> set ao) [0..<n])" by simp
    then have "length (filter (\<lambda>i. int i \<in> set ao) [0..<n])
        = card (set (filter (\<lambda>i. int i \<in> set ao) [0..<n]))"
      by (rule distinct_card [symmetric])
    also have "set (filter (\<lambda>i. int i \<in> set ao) [0..<n]) = {i. i < n \<and> int i \<in> set ao}"
      by auto
    finally have "length (filter (\<lambda>i. int i \<in> set ao) [0..<n]) = card {i. i < n \<and> int i \<in> set ao}" .
    also have "{i. i < n \<and> int i \<in> set ao} = nat ` set ao"
    proof (rule set_eqI, rule iffI)
      fix i assume "i \<in> {i. i < n \<and> int i \<in> set ao}"
      then have "int i \<in> set ao" "i = nat (int i)" by simp_all
      then show "i \<in> nat ` set ao" by (rule image_eqI [rotated])
    next
      fix i assume "i \<in> nat ` set ao"
      then obtain x where "x \<in> set ao" "i = nat x" by auto
      moreover have "0 \<le> x \<and> x < int n" using \<open>x \<in> set ao\<close> assms(2) by blast
      ultimately show "i \<in> {i. i < n \<and> int i \<in> set ao}" by (simp add: nat_less_iff)
    qed
    also have "card (nat ` set ao) = card (set ao)"
    proof (intro card_image inj_onI)
      fix x y assume "x \<in> set ao" "y \<in> set ao" "nat x = nat y"
      moreover have "0 \<le> x" "0 \<le> y" using calculation assms(2) by blast+
      ultimately show "x = y" by simp
    qed
    finally show ?thesis using assms(1) by (simp add: distinct_card)
  qed
  moreover have "length [0..<n] = length (filter (\<lambda>i. int i \<in> set ao) [0..<n])
      + length (filter (\<lambda>i. int i \<notin> set ao) [0..<n])"
    using sum_length_filter_compl [of "\<lambda>i. int i \<in> set ao" "[0..<n]"] by simp
  ultimately show ?thesis by simp
qed

lemma nonzero_lengths:
  shows "mshape \<noteq> [] \<Longrightarrow> length (nonzero mshape mdata) = length mshape"
    and "nonzero mshape mdata \<noteq> []"
    and "\<forall>l\<in>set (nonzero mshape mdata). length l = length (filter (\<lambda>k. mdata ! k) [0..<length mdata])"
  by (auto simp: nonzero_def Let_def)

lemma getslice_total:
  assumes "slice_step idx \<noteq> Some 0"
  shows "\<exists>sub. getslice ind idx = Inr sub"
proof -
  obtain a b st where "indices idx (int (length ind)) = Inr (a, b, st)"
    using indices_total [OF _ assms, of "int (length ind)"] by auto
  then show ?thesis by (simp add: getslice_def)
qed

lemma maskLoop_result:
  assumes "distinct ao" "\<forall>x\<in>set ao. 0 \<le> x \<and> x < int (length idxAxis)" "length mi = length ao"
    and "\<forall>(idx, nidx)\<in>set g. slice_step idx \<noteq> Some 0"
    and "0 \<le> l" "l < int (length chunkShape)"
    and "length ci = k + length g"
  shows "\<exists>cs. maskLoop ao mi (Some l) (zip [k..<k + length g] g) (idxAxis, chunkShape, ci)
             = Inr (take k ci @ map Some cs)
       \<and> length cs = length g
       \<and> (\<forall>t<length g. chunkCount (cs ! t) = snd (g ! t)
            \<and> (\<forall>j<length ao. getslice (mi ! j) (fst (g ! t))
                  = Inr (indexRows (fst (cs ! t) ! nat (ao ! j)) (N j))))"
  using assms(2,4,6,7)
proof (induction g arbitrary: k idxAxis chunkShape ci)
  case Nil
  then show ?case by simp
next
  case (Cons e g)
  obtain idx nidx where e: "e = (idx, nidx)" by (cases e)
  have st: "slice_step idx \<noteq> Some 0" using Cons.prems(2) e by auto
  have "\<forall>(ax, ind)\<in>set (zip ao mi). 0 \<le> ax \<and> ax < int (length idxAxis)
             \<and> (\<exists>sub. getslice ind idx = Inr sub)"
    using Cons.prems(1) getslice_total [OF st] by (auto dest: set_zip_leftD)
  then obtain idxAxis' where ma: "maskAssign (zip ao mi) idx idxAxis = Inr idxAxis'"
    and la: "length idxAxis' = length idxAxis"
    using maskAssign_total by blast
  note lk = maskAssign_lookup [OF ma assms(1) Cons.prems(1) assms(3)]
  let ?cs' = "chunkShape[nat l := Some nidx]"
  let ?c = "(idxAxis', ?cs', nidx)"
  let ?ci1 = "ci[k := Some ?c]"
  have s1: "py_setitem chunkShape l (Some nidx) = Inr ?cs'"
    using assms(5) Cons.prems(3) by (rule py_setitem_nth)
  have kl: "k < length ci" using Cons.prems(4) by simp
  then have s2: "py_setitem ci (int k) (Some ?c) = Inr ?ci1"
    using py_setitem_nth [of "int k" ci] by simp
  have "\<exists>cs. maskLoop ao mi (Some l) (zip [Suc k..<Suc k + length g] g) (idxAxis', ?cs', ?ci1)
             = Inr (take (Suc k) ?ci1 @ map Some cs)
       \<and> length cs = length g
       \<and> (\<forall>t<length g. chunkCount (cs ! t) = snd (g ! t)
            \<and> (\<forall>j<length ao. getslice (mi ! j) (fst (g ! t))
                  = Inr (indexRows (fst (cs ! t) ! nat (ao ! j)) (N j))))"
    using Cons.prems la by (intro Cons.IH) auto
  then obtain cs where
    r: "maskLoop ao mi (Some l) (zip [Suc k..<Suc k + length g] g) (idxAxis', ?cs', ?ci1)
             = Inr (take (Suc k) ?ci1 @ map Some cs)"
    and lc: "length cs = length g"
    and q: "\<forall>t<length g. chunkCount (cs ! t) = snd (g ! t)
            \<and> (\<forall>j<length ao. getslice (mi ! j) (fst (g ! t))
                  = Inr (indexRows (fst (cs ! t) ! nat (ao ! j)) (N j)))"
    by blast
  have z: "zip [k..<k + length (e # g)] (e # g) = (k, idx, nidx) # zip [Suc k..<Suc k + length g] g"
  proof -
    have "[k..<k + length (e # g)] = k # [Suc k..<Suc k + length g]"
      by (subst upt_rec) simp
    then show ?thesis unfolding e by simp
  qed
  have tk: "take (Suc k) ?ci1 = take k ci @ [Some ?c]"
    using kl by (simp add: take_Suc_conv_app_nth)
  have run: "maskLoop ao mi (Some l) (zip [k..<k + length (e # g)] (e # g)) (idxAxis, chunkShape, ci)
      = Inr (take k ci @ map Some (?c # cs))"
    unfolding z using ma s1 s2 r tk by simp
  have q0: "chunkCount ?c = snd e
            \<and> (\<forall>j<length ao. getslice (mi ! j) (fst e)
                  = Inr (indexRows (fst ?c ! nat (ao ! j)) (N j)))"
  proof (intro conjI allI impI)
    show "chunkCount ?c = snd e" by (simp add: chunkCount_def e)
  next
    fix j assume "j < length ao"
    then obtain ll where "getslice (mi ! j) idx
        = Inr (case idxAxis' ! nat (ao ! j) of ListIdx l \<Rightarrow> l | _ \<Rightarrow> [])"
      "idxAxis' ! nat (ao ! j) = ListIdx ll"
      using lk by blast
    then show "getslice (mi ! j) (fst e) = Inr (indexRows (fst ?c ! nat (ao ! j)) (N j))"
      by (simp add: e indexRows.simps)
  qed
  have qs: "\<forall>t<length (e # g). chunkCount ((?c # cs) ! t) = snd ((e # g) ! t)
            \<and> (\<forall>j<length ao. getslice (mi ! j) (fst ((e # g) ! t))
                  = Inr (indexRows (fst ((?c # cs) ! t) ! nat (ao ! j)) (N j)))"
  proof (intro allI impI)
    fix t assume "t < length (e # g)"
    then show "chunkCount ((?c # cs) ! t) = snd ((e # g) ! t)
            \<and> (\<forall>j<length ao. getslice (mi ! j) (fst ((e # g) ! t))
                  = Inr (indexRows (fst ((?c # cs) ! t) ! nat (ao ! j)) (N j)))"
      using q0 q by (cases t) simp_all
  qed
  show ?case
    using run lc qs by (intro exI [of _ "?c # cs"]) simp
qed

lemma length_py_insert: "length (py_insert xs i v) = Suc (length xs)"
  by (simp add: py_insert_def Let_def)

lemma ceil_forms:
  fixes m cap :: int
  assumes "1 \<le> cap" "0 \<le> m"
  shows "max 0 ((m + cap - 1) div cap) = m div cap + int_bool (m mod cap)"
proof (cases "m = 0")
  case True
  then show ?thesis using assms by (simp add: int_bool_def)
next
  case False
  then have m1: "1 \<le> m" using assms by simp
  have "(m + cap - 1) div cap = m div cap + int_bool (m mod cap)"
    using ceil_div(1,2) [OF assms] m1 assms(1) by (intro ceil_unique) simp_all
  moreover have "0 \<le> m div cap + int_bool (m mod cap)" using ceil_div(4) [OF assms] .
  ultimately show ?thesis by simp
qed

lemma gen_closed:
  assumes "1 \<le> cap"
  shows "chunkIndexGen 0 m (Some cap)
     = Inr (map (\<lambda>k. (Slice (Some (int k * cap)) (Some (min (int k * cap + cap) m)) (Some 1),
                        min (int k * cap + cap) m - int k * cap))
              [0..<nat ((m + cap - 1) div cap)])"
proof -
  have "py_range 0 m cap = map (\<lambda>k. 0 + int k * cap) [0..<nat ((m - 0 + cap - 1) div cap)]"
    using assms by (intro py_range_closed) simp
  then show ?thesis unfolding chunkIndexGen_pos [OF assms] by (simp add: comp_def)
qed

text \<open>Batching for a boolean-array mask. With \<open>m\<close> selected elements and capacity
  \<open>c\<close> (coerced to at least 1), \<open>maskedChunkIndex\<close> returns \<open>ceil(m / c)\<close> chunks,
  chunk \<open>k\<close> holds \<open>min(c, m - k c)\<close> rows, the counts sum to \<open>m\<close>, and along every
  order axis the index lists of the chunks, concatenated in chunk order, are the list
  that \<open>nonzero()\<close> gives: the order of the mask is kept.\<close>

lemma masked_array_batches:
  assumes nonneg: "\<forall>d\<in>set shape. 0 \<le> d"
    and params: "chunkIndexParameters shape cap0 ca0 ao0 sl0 ''F'' = Inr (cap, ca, ao, sl)"
    and carange: "\<forall>ax\<in>set ca. 0 \<le> ax \<and> ax < int (length shape)"
    and steps: "\<forall>s\<in>set sl. slice_step s \<noteq> Some 0"
    and dims: "length mshape = length ao" "ao \<noteq> []"
    and m: "m = int (length (filter (\<lambda>k. mdata ! k) [0..<length mdata]))"
  shows "\<exists>chunks. maskedChunkIndex shape cap0 (Some (ArrayMask mshape mdata)) ca0 ao0 sl0 dflt
           = Inr (map Some chunks, ca, ao, cap)
     \<and> int (length chunks) = m div cap + int_bool (m mod cap)
     \<and> (\<forall>k<length chunks. chunkCount (chunks ! k) = min cap (m - int k * cap))
     \<and> sum_list (map chunkCount chunks) = m
     \<and> (\<forall>j<length ao. concat (map (\<lambda>c. indexRows (fst c ! nat (ao ! j)) (shape ! nat (ao ! j))) chunks)
            = nonzero mshape mdata ! j)"
proof -
  note pf = chunkIndexParameters_facts [OF params]
  note af = axesOrder_facts [OF pf(3)]
  have cap1: "1 \<le> cap" using pf(1) by simp
  have m0: "0 \<le> m" using m by simp
  let ?ndim = "length shape"
  let ?mi = "nonzero mshape mdata"
  \<comment> \<open>the chunk axes\<close>
  have "\<forall>(ax, idx)\<in>set (zip ca sl). 0 \<le> ax \<and> ax < int ?ndim \<and> slice_step idx \<noteq> Some 0"
    using carange steps by (auto dest: set_zip_leftD set_zip_rightD)
  then obtain idxAxis cs0 where
    caa: "chunkAxesAssign shape (zip ca sl)
            (replicate ?ndim (SliceIdx (Slice None None None)), map Some shape) = Inr (idxAxis, cs0)"
    and li: "length idxAxis = ?ndim" and lc0: "length cs0 = ?ndim"
    using chunkAxesAssign_total [OF nonneg, of "zip ca sl"
        "replicate ?ndim (SliceIdx (Slice None None None))" "map Some shape"]
    by auto
  \<comment> \<open>the axis of the integer lists\<close>
  obtain l where la: "intListIndexAxis shape ao = Some l" and l0: "0 \<le> l"
    and lr: "l + int (length ao) \<le> int ?ndim"
    using intListIndexAxis_range [OF af(1) dims(2) af(3)] by blast
  let ?cs1 = "map snd (filter (\<lambda>(i, s). int i \<notin> set ao) (zip [0..<length cs0] cs0))"
  let ?cs = "py_insert ?cs1 l None"
  have "length ?cs1 + length ao = ?ndim"
    using length_filter_not_in [OF af(1) af(3), of cs0] lc0 by simp
  then have ll: "l < int (length ?cs)" using lr by (simp add: length_py_insert)
  \<comment> \<open>the mask\<close>
  have mshape: "mshape \<noteq> []" using dims by auto
  have lmi: "length ?mi = length ao" using nonzero_lengths(1) [OF mshape] dims(1) by simp
  have leach: "\<forall>ind\<in>set ?mi. int (length ind) = m"
    using nonzero_lengths(3) [of mshape mdata] m by simp
  have g0: "py_getitem ?mi 0 = Inr (?mi ! 0)"
    using lmi dims(2) by (simp add: py_getitem_def)
  have l0m: "int (length (?mi ! 0)) = m"
    using leach lmi dims(2) by (simp add: nth_mem)
  \<comment> \<open>the batches\<close>
  let ?n = "nat ((m + cap - 1) div cap)"
  let ?piece = "\<lambda>k. (Slice (Some (int k * cap)) (Some (min (int k * cap + cap) m)) (Some 1),
                        min (int k * cap + cap) m - int k * cap)"
  let ?gen = "map ?piece [0..<?n]"
  have gen: "chunkIndexGen 0 m (Some cap) = Inr ?gen" using gen_closed [OF cap1] .
  have nn: "0 \<le> (m + cap - 1) div cap"
    using cap1 m0 by (simp add: pos_imp_zdiv_nonneg_iff)
  then have cf: "(m + cap - 1) div cap = m div cap + int_bool (m mod cap)"
    using ceil_forms [OF cap1 m0] by simp
  have lg: "int (length ?gen) = m div cap + int_bool (m mod cap)"
    using nn cf by simp
  have gok: "piecesOK m cap ?gen"
    using chunkIndexGen_piecesOK [OF cap1 m0] gen by simp
  have gst: "\<forall>(idx, nidx)\<in>set ?gen. slice_step idx \<noteq> Some 0" by auto
  have xr: "\<forall>x\<in>set ao. 0 \<le> x \<and> x < int (length idxAxis)" using af(3) li by simp
  let ?ci = "replicate (nat (m div cap + int_bool (m mod cap))) (None :: chunk option)"
  have lci: "length ?ci = 0 + length ?gen" using cf by simp
  obtain cs where
    run: "maskLoop ao ?mi (Some l) (zip [0..<0 + length ?gen] ?gen) (idxAxis, ?cs, ?ci)
             = Inr (take 0 ?ci @ map Some cs)"
    and lcs: "length cs = length ?gen"
    and q: "\<forall>t<length ?gen. chunkCount (cs ! t) = snd (?gen ! t)
            \<and> (\<forall>j<length ao. getslice (?mi ! j) (fst (?gen ! t))
                  = Inr (indexRows (fst (cs ! t) ! nat (ao ! j)) (shape ! nat (ao ! j))))"
    using maskLoop_result [OF af(1) xr lmi gst l0 ll lci, of "\<lambda>j. shape ! nat (ao ! j)"] by blast
  have res: "maskedChunkIndex shape cap0 (Some (ArrayMask mshape mdata)) ca0 ao0 sl0 dflt
           = Inr (map Some cs, ca, ao, cap)"
    unfolding maskedChunkIndex_def
    using params dims(1) caa la g0 l0m gen run cap1
    by (simp add: Let_def py_floordiv_def py_mod_def)
  have p1: "int (length cs) = m div cap + int_bool (m mod cap)" using lcs lg by simp
  have p2: "\<forall>k<length cs. chunkCount (cs ! k) = min cap (m - int k * cap)"
  proof (intro allI impI)
    fix k assume "k < length cs"
    then have k: "k < ?n" using lcs by simp
    then have "chunkCount (cs ! k) = snd (?gen ! k)" using q by simp
    also have "\<dots> = min (int k * cap + cap) m - int k * cap" using k by simp
    finally show "chunkCount (cs ! k) = min cap (m - int k * cap)" by (simp add: min_def)
  qed
  have "map chunkCount cs = map snd ?gen"
    using q lcs by (intro nth_equalityI) simp_all
  then have p3: "sum_list (map chunkCount cs) = m"
    using piecesOK_sum [OF gok m0] by simp
  have p4: "\<forall>j<length ao. concat (map (\<lambda>c. indexRows (fst c ! nat (ao ! j)) (shape ! nat (ao ! j))) cs)
            = ?mi ! j"
  proof (intro allI impI)
    fix j assume j: "j < length ao"
    let ?xs = "?mi ! j"
    have lx: "int (length ?xs) = m" using leach lmi j by (simp add: nth_mem)
    have "map (\<lambda>c. indexRows (fst c ! nat (ao ! j)) (shape ! nat (ao ! j))) cs
        = map (\<lambda>p. map (\<lambda>i. ?xs ! nat i) (indexRows (SliceIdx (fst p)) m)) ?gen"
    proof (rule nth_equalityI)
      show "length (map (\<lambda>c. indexRows (fst c ! nat (ao ! j)) (shape ! nat (ao ! j))) cs)
          = length (map (\<lambda>p. map (\<lambda>i. ?xs ! nat i) (indexRows (SliceIdx (fst p)) m)) ?gen)"
        using lcs by simp
    next
      fix t assume "t < length (map (\<lambda>c. indexRows (fst c ! nat (ao ! j)) (shape ! nat (ao ! j))) cs)"
      then have t: "t < length ?gen" "t < length cs" using lcs by simp_all
      have g: "getslice ?xs (fst (?gen ! t))
          = Inr (indexRows (fst (cs ! t) ! nat (ao ! j)) (shape ! nat (ao ! j)))"
        using q t(1) j by blast
      obtain a b st where "indices (fst (?gen ! t)) (int (length ?xs)) = Inr (a, b, st)"
        using indices_total [of "int (length ?xs)" "fst (?gen ! t)"] t(1) by auto
      then have "getslice ?xs (fst (?gen ! t))
          = Inr (map (\<lambda>i. ?xs ! nat i) (indexRows (SliceIdx (fst (?gen ! t))) (int (length ?xs))))"
        by (rule getslice_rows)
      then have "indexRows (fst (cs ! t) ! nat (ao ! j)) (shape ! nat (ao ! j))
          = map (\<lambda>i. ?xs ! nat i) (indexRows (SliceIdx (fst (?gen ! t))) m)"
        using g lx by simp
      then show "map (\<lambda>c. indexRows (fst c ! nat (ao ! j)) (shape ! nat (ao ! j))) cs ! t
          = map (\<lambda>p. map (\<lambda>i. ?xs ! nat i) (indexRows (SliceIdx (fst p)) m)) ?gen ! t"
        using t by (simp del: upt_Suc)
    qed
    then have "concat (map (\<lambda>c. indexRows (fst c ! nat (ao ! j)) (shape ! nat (ao ! j))) cs)
        = map (\<lambda>i. ?xs ! nat i) (concat (map (\<lambda>p. indexRows (SliceIdx (fst p)) m) ?gen))"
      by (simp add: map_concat comp_def del: upt_Suc)
    also have "concat (map (\<lambda>p. indexRows (SliceIdx (fst p)) m) ?gen) = range_list m"
      using gok unfolding piecesOK_def by (simp add: split_def comp_def del: upt_Suc)
    also have "map (\<lambda>i. ?xs ! nat i) (range_list m) = ?xs"
      using map_nth_upto [of "length ?xs" ?xs] lx by (simp add: range_list_upto)
    finally show "concat (map (\<lambda>c. indexRows (fst c ! nat (ao ! j)) (shape ! nat (ao ! j))) cs) = ?xs" .
  qed
  show ?thesis using res p1 p2 p3 p4 by blast
qed

section \<open>The view: buffer and chunks\<close>

lemma sliceLen_prefix:
  "0 \<le> k \<Longrightarrow> k \<le> n \<Longrightarrow> sliceLen (Slice None (Some k) None) n = Inr k"
  by (simp add: sliceLen_def indices_def adjust_bound_def Let_def)

lemma sliceLen_nonneg: "sliceLen slc n = Inr l \<Longrightarrow> 0 \<le> l"
  by (auto simp: sliceLen_def Let_def split: sum.splits prod.splits)

lemma MaskedView_init_unfold:
  assumes "MaskedView_init shape mask0 nMca0 mcaAxis0 mcaSlice0 axesOrder0 readonly = Inr v"
    and "ax = (case mcaAxis0 of None \<Rightarrow> - 1 | Some a \<Rightarrow> a)"
    and "slc = (case mcaSlice0 of None \<Rightarrow> Slice None None None | Some s \<Rightarrow> s)"
  shows "\<exists>ci ca ao nb n2 nChan.
      (case mask0 of
         None \<Rightarrow> \<exists>d. fullChunkIndex shape nMca0 (Some [ax]) axesOrder0 (Some [slc]) ''C''
                      = Inr (d, ca, ao, nb) \<and> ci = DenseIndex d
       | Some msk \<Rightarrow> \<exists>m. maskedChunkIndex shape nMca0 (Some msk) (Some [ax]) axesOrder0 (Some [slc]) ''C''
                      = Inr (m, ca, ao, nb) \<and> ci = MaskedIndex m)
    \<and> py_getitem shape ax = Inr n2 \<and> sliceLen slc n2 = Inr nChan
    \<and> v = \<lparr>view_chunkIndex = ci, view_chunkAxes = ca, view_axesOrder = ao,
           view_masked = (mask0 \<noteq> None), view_bufferShape = (nb, nChan),
           view_readonly = readonly\<rparr>"
proof (cases mask0)
  case None
  show ?thesis
    using assms(1) unfolding MaskedView_init_def Let_def assms(2,3) [symmetric] None
    by (auto simp: ebind_eq_Inr)
next
  case (Some msk)
  show ?thesis
    using assms(1) unfolding MaskedView_init_def Let_def assms(2,3) [symmetric] Some
    by (auto simp: ebind_eq_Inr)
qed

lemma view_count_bound:
  assumes nonneg: "\<forall>d\<in>set shape. 0 \<le> d"
    and init: "MaskedView_init shape mask0 nMca0 mcaAxis0 mcaSlice0 axesOrder0 readonly = Inr v"
  shows "0 \<le> fst (view_bufferShape v) \<and> 0 \<le> snd (view_bufferShape v)
       \<and> (\<forall>chunks tA c. chunkGenerator v shape = Inr (chunks, tA) \<longrightarrow> Some c \<in> set chunks \<longrightarrow>
             0 \<le> chunkCount c \<and> chunkCount c \<le> fst (view_bufferShape v))"
proof -
  obtain ci ca ao nb n2 nChan where
    pl: "case mask0 of
         None \<Rightarrow> \<exists>d. fullChunkIndex shape nMca0 (Some [case mcaAxis0 of None \<Rightarrow> - 1 | Some a \<Rightarrow> a])
                        axesOrder0 (Some [case mcaSlice0 of None \<Rightarrow> Slice None None None | Some s \<Rightarrow> s]) ''C''
                      = Inr (d, ca, ao, nb) \<and> ci = DenseIndex d
       | Some msk \<Rightarrow> \<exists>m. maskedChunkIndex shape nMca0 (Some msk)
                        (Some [case mcaAxis0 of None \<Rightarrow> - 1 | Some a \<Rightarrow> a])
                        axesOrder0 (Some [case mcaSlice0 of None \<Rightarrow> Slice None None None | Some s \<Rightarrow> s]) ''C''
                      = Inr (m, ca, ao, nb) \<and> ci = MaskedIndex m"
    and sl: "sliceLen (case mcaSlice0 of None \<Rightarrow> Slice None None None | Some s \<Rightarrow> s) n2 = Inr nChan"
    and v: "v = \<lparr>view_chunkIndex = ci, view_chunkAxes = ca, view_axesOrder = ao,
           view_masked = (mask0 \<noteq> None), view_bufferShape = (nb, nChan),
           view_readonly = readonly\<rparr>"
    using MaskedView_init_unfold [OF init refl refl] by blast
  have nch: "0 \<le> nChan" using sliceLen_nonneg [OF sl] .
  show ?thesis
  proof (cases mask0)
    case None
    then obtain d where f: "fullChunkIndex shape nMca0 (Some [case mcaAxis0 of None \<Rightarrow> - 1 | Some a \<Rightarrow> a])
                        axesOrder0 (Some [case mcaSlice0 of None \<Rightarrow> Slice None None None | Some s \<Rightarrow> s]) ''C''
                      = Inr (d, ca, ao, nb)" and ci: "ci = DenseIndex d"
      using pl by auto
    have nb: "0 \<le> nb" using fullChunkIndex_structure [OF f nonneg] by blast
    have "0 \<le> chunkCount c \<and> chunkCount c \<le> nb"
      if cg: "chunkGenerator v shape = Inr (chunks, tA)" and sc: "Some c \<in> set chunks" for chunks tA c
    proof -
      obtain cs where p: "chunkIndexProduct d ca ao = Inr cs" and e: "chunks = map Some cs"
        using cg unfolding chunkGenerator_def v ci by (auto simp: ebind_eq_Inr)
      have "c \<in> set cs" using sc e by auto
      then show ?thesis using dense_count_bound [OF f nonneg p] by simp
    qed
    then show ?thesis using nb nch v by simp
  next
    case (Some msk)
    then obtain m where f: "maskedChunkIndex shape nMca0 (Some msk)
                        (Some [case mcaAxis0 of None \<Rightarrow> - 1 | Some a \<Rightarrow> a])
                        axesOrder0 (Some [case mcaSlice0 of None \<Rightarrow> Slice None None None | Some s \<Rightarrow> s]) ''C''
                      = Inr (m, ca, ao, nb)" and ci: "ci = MaskedIndex m"
      using pl by auto
    obtain sl' where "chunkIndexParameters shape nMca0 (Some [case mcaAxis0 of None \<Rightarrow> - 1 | Some a \<Rightarrow> a])
                        axesOrder0 (Some [case mcaSlice0 of None \<Rightarrow> Slice None None None | Some s \<Rightarrow> s]) ''F''
                      = Inr (nb, ca, ao, sl')"
      using maskedChunkIndex_Some_unfold [OF f] by blast
    then have nb: "0 \<le> nb" using chunkIndexParameters_facts(1) by fastforce
    have "0 \<le> chunkCount c \<and> chunkCount c \<le> nb"
      if cg: "chunkGenerator v shape = Inr (chunks, tA)" and sc: "Some c \<in> set chunks" for chunks tA c
    proof -
      have e: "chunks = m" using cg unfolding chunkGenerator_def v ci by simp
      have "Some c \<in> set m" using sc e by simp
      from masked_count_bound [OF f this] show ?thesis by blast
    qed
    then show ?thesis using nb nch v by simp
  qed
qed

lemma view_buffer_rows:
  assumes nonneg: "\<forall>d\<in>set shape. 0 \<le> d"
    and init: "MaskedView_init shape vmask nMca0 mcaAxis0 mcaSlice0 axesOrder0 readonly = Inr v"
  shows "\<exists>nRows nChan buffer.
      view_bufferShape v = (nRows, nChan)
    \<and> (case vmask of
         None \<Rightarrow> \<exists>d. fullChunkIndex shape nMca0
                        (Some [case mcaAxis0 of None \<Rightarrow> - 1 | Some a \<Rightarrow> a]) axesOrder0
                        (Some [case mcaSlice0 of None \<Rightarrow> Slice None None None | Some s \<Rightarrow> s]) ''C''
                      = Inr (d, view_chunkAxes v, view_axesOrder v, nRows)
                    \<and> view_chunkIndex v = DenseIndex d
       | Some msk \<Rightarrow> \<exists>m. maskedChunkIndex shape nMca0 (Some msk)
                        (Some [case mcaAxis0 of None \<Rightarrow> - 1 | Some a \<Rightarrow> a]) axesOrder0
                        (Some [case mcaSlice0 of None \<Rightarrow> Slice None None None | Some s \<Rightarrow> s]) ''C''
                      = Inr (m, view_chunkAxes v, view_axesOrder v, nRows)
                    \<and> view_chunkIndex v = MaskedIndex m)
    \<and> prepareAccess fill v = Inr (\<not> readonly, buffer)
    \<and> arr_shape buffer = [nat nRows, nat nChan] \<and> int (nat nRows) = nRows
    \<and> (\<forall>chunks tA c. chunkGenerator v shape = Inr (chunks, tA) \<longrightarrow> Some c \<in> set chunks \<longrightarrow>
          0 \<le> chunkCount c \<and> chunkCount c \<le> nRows
          \<and> buffer_slice buffer (chunkCount c) = Inr (chunkCount c))"
proof -
  obtain ci ca ao nb n2 nChan where
    pl: "case vmask of
         None \<Rightarrow> \<exists>d. fullChunkIndex shape nMca0 (Some [case mcaAxis0 of None \<Rightarrow> - 1 | Some a \<Rightarrow> a])
                        axesOrder0 (Some [case mcaSlice0 of None \<Rightarrow> Slice None None None | Some s \<Rightarrow> s]) ''C''
                      = Inr (d, ca, ao, nb) \<and> ci = DenseIndex d
       | Some msk \<Rightarrow> \<exists>m. maskedChunkIndex shape nMca0 (Some msk)
                        (Some [case mcaAxis0 of None \<Rightarrow> - 1 | Some a \<Rightarrow> a])
                        axesOrder0 (Some [case mcaSlice0 of None \<Rightarrow> Slice None None None | Some s \<Rightarrow> s]) ''C''
                      = Inr (m, ca, ao, nb) \<and> ci = MaskedIndex m"
    and v: "v = \<lparr>view_chunkIndex = ci, view_chunkAxes = ca, view_axesOrder = ao,
           view_masked = (vmask \<noteq> None), view_bufferShape = (nb, nChan),
           view_readonly = readonly\<rparr>"
    using MaskedView_init_unfold [OF init refl refl] by blast
  note b = view_count_bound [OF nonneg init]
  have nb: "0 \<le> nb" and nch: "0 \<le> nChan" using b v by simp_all
  let ?buffer = "NDArray [nat nb, nat nChan] (map fill [0..<nat nb * nat nChan])"
  have pa: "prepareAccess fill v = Inr (\<not> readonly, ?buffer)"
    using nb nch unfolding prepareAccess_def v by simp
  have sl: "buffer_slice ?buffer k = Inr k" if "0 \<le> k \<and> k \<le> nb" for k
    using that nb unfolding buffer_slice_def by (simp add: sliceLen_prefix)
  have ch: "0 \<le> chunkCount c \<and> chunkCount c \<le> nb
          \<and> buffer_slice ?buffer (chunkCount c) = Inr (chunkCount c)"
    if cg: "chunkGenerator v shape = Inr (chunks, tA)" and sc: "Some c \<in> set chunks"
    for chunks tA c
  proof -
    have "0 \<le> chunkCount c \<and> chunkCount c \<le> nb"
      using b [THEN conjunct2, THEN conjunct2, rule_format, OF cg sc] v by simp
    then show ?thesis using sl by simp
  qed
  have pl': "case vmask of
         None \<Rightarrow> \<exists>d. fullChunkIndex shape nMca0
                        (Some [case mcaAxis0 of None \<Rightarrow> - 1 | Some a \<Rightarrow> a]) axesOrder0
                        (Some [case mcaSlice0 of None \<Rightarrow> Slice None None None | Some s \<Rightarrow> s]) ''C''
                      = Inr (d, view_chunkAxes v, view_axesOrder v, nb)
                    \<and> view_chunkIndex v = DenseIndex d
       | Some msk \<Rightarrow> \<exists>m. maskedChunkIndex shape nMca0 (Some msk)
                        (Some [case mcaAxis0 of None \<Rightarrow> - 1 | Some a \<Rightarrow> a]) axesOrder0
                        (Some [case mcaSlice0 of None \<Rightarrow> Slice None None None | Some s \<Rightarrow> s]) ''C''
                      = Inr (m, view_chunkAxes v, view_axesOrder v, nb)
                    \<and> view_chunkIndex v = MaskedIndex m"
    using pl by (cases vmask) (auto simp: v)
  have bs: "view_bufferShape v = (nb, nChan)" unfolding v by simp
  have sh: "arr_shape ?buffer = [nat nb, nat nChan]" by simp
  have ir: "int (nat nb) = nb" using nb by simp
  show ?thesis
    using bs pl' pa sh ir ch by blast
qed


section \<open>Memory budgeting: one axis\<close>

text \<open>For one axis, given as an integer inside the shape of an array of at least two
  dimensions, and sizes whose product fits into 64 bits, \<open>chunks_in_memory\<close> divides by
  the number of bytes of all the other dimensions, and the result is raised to
  \<open>maximal\<close> when that is given.\<close>

lemma chunks_in_memory_single_axis:
  assumes "0 \<le> ax" "ax < int (length shape)" "2 \<le> length shape"
    and "- (2 ^ 63) \<le> prod_list rest" "prod_list rest < 2 ^ 63"
    and "- (2 ^ 63) \<le> prod_list rest * itemsize" "prod_list rest * itemsize < 2 ^ 63"
    and "rest = take (nat ax) shape @ drop (Suc (nat ax)) shape"
  shows "chunks_in_memory (Some mem) quot shape itemsize (AxisInt ax) maximal
     = ebind (quot mem (prod_list rest * itemsize))
         (\<lambda>n. Inr (Some (if maximal = None \<or> maximal = Some 0 then n else max n (the maximal))))"
proof -
  have w: "wrap64 x = x" if "- (2 ^ 63) \<le> x" "x < 2 ^ 63" for x
    using that unfolding wrap64_def by (simp add: mod_pos_pos_trivial)
  have ne: "rest \<noteq> []" using assms(1,2,3,8) by (auto simp: nat_less_iff)
  have p: "py_pop shape ax = Inr rest" using assms(1,2,8) by (simp add: py_pop_def Let_def)
  have body: "chunks_in_memory (Some mem) quot shape itemsize (AxisInt ax) maximal
     = ebind (quot mem (prod_list rest * itemsize))
         (\<lambda>n_chunks. case maximal of
              None \<Rightarrow> Inr (Some n_chunks)
            | Some m \<Rightarrow> if m \<noteq> 0 then Inr (Some (max n_chunks m)) else Inr (Some n_chunks))"
    unfolding chunks_in_memory_def using p ne w [OF assms(4,5)] w [OF assms(6,7)]
    by (simp add: Let_def)
  show ?thesis
  proof (cases maximal)
    case None
    then show ?thesis using body by simp
  next
    case (Some m)
    then show ?thesis using body by (cases "m = 0") simp_all
  qed
qed

section \<open>Arrays: positions, permutations and the round trip of a chunk\<close>

lemma unravel_index_length [simp]: "length (unravel_index s k) = length s"
  by (induction s arbitrary: k) simp_all

lemma unravel_index_bound:
  "k < prod_list s \<Longrightarrow> i < length s \<Longrightarrow> unravel_index s k ! i < s ! i"
proof (induction s arbitrary: k i)
  case Nil
  then show ?case by simp
next
  case (Cons d ds)
  have pos: "0 < prod_list ds" using Cons.prems(1) by (cases "prod_list ds = 0") simp_all
  show ?case
  proof (cases i)
    case 0
    have "k div prod_list ds < d"
      using Cons.prems(1) pos by (simp add: less_mult_imp_div_less mult.commute)
    then show ?thesis using 0 by simp
  next
    case (Suc i')
    have "k mod prod_list ds < prod_list ds" using pos by simp
    then show ?thesis using Suc Cons.IH [of "k mod prod_list ds" i'] Cons.prems(2) by simp
  qed
qed

lemma ravel_unravel: "k < prod_list s \<Longrightarrow> ravel s (unravel_index s k) = k"
proof (induction s arbitrary: k)
  case Nil
  then show ?case by simp
next
  case (Cons d ds)
  have pos: "0 < prod_list ds" using Cons.prems by (cases "prod_list ds = 0") simp_all
  have "ravel ds (unravel_index ds (k mod prod_list ds)) = k mod prod_list ds"
    using Cons.IH [of "k mod prod_list ds"] pos by simp
  then show ?case by simp
qed

lemma ravel_bound:
  "length j = length s \<Longrightarrow> \<forall>i<length s. j ! i < s ! i \<Longrightarrow> ravel s j < prod_list s"
proof (induction s arbitrary: j)
  case Nil
  then show ?case by simp
next
  case (Cons d ds)
  then obtain i js where j: "j = i # js" by (cases j) auto
  have i: "i < d" using Cons.prems(2) j by auto
  have "\<forall>t<length ds. js ! t < ds ! t" using Cons.prems(2) j by auto
  then have r: "ravel ds js < prod_list ds" using Cons.IH [of js] Cons.prems(1) j by simp
  have "i * prod_list ds + ravel ds js < Suc i * prod_list ds" using r by simp
  also have "\<dots> \<le> d * prod_list ds" using i by (intro mult_le_mono1) simp
  finally show ?case using j by simp
qed

lemma unravel_ravel:
  "length j = length s \<Longrightarrow> \<forall>i<length s. j ! i < s ! i \<Longrightarrow> unravel_index s (ravel s j) = j"
proof (induction s arbitrary: j)
  case Nil
  then show ?case by simp
next
  case (Cons d ds)
  then obtain i js where j: "j = i # js" by (cases j) auto
  have b: "\<forall>t<length ds. js ! t < ds ! t" using Cons.prems(2) j by auto
  have l: "length js = length ds" using Cons.prems(1) j by simp
  have r: "ravel ds js < prod_list ds" using ravel_bound [OF l b] .
  have "unravel_index ds (ravel ds js) = js" using Cons.IH [OF l b] .
  then show ?case using j r by simp
qed

lemma index_of_mem:
  "x \<in> set xs \<Longrightarrow> index_of xs x < length xs \<and> xs ! index_of xs x = x"
  by (induction xs) auto

lemma index_of_nth:
  "distinct xs \<Longrightarrow> i < length xs \<Longrightarrow> index_of xs (xs ! i) = i"
proof (induction xs arbitrary: i)
  case Nil
  then show ?case by simp
next
  case (Cons y ys)
  then show ?case by (cases i) auto
qed

lemma perm_facts:
  assumes "sort axes = map int [0..<n]"
  shows "length axes = n" and "distinct axes" and "set axes = int ` {0..<n}"
    and "distinct (map nat axes)" and "set (map nat axes) = {0..<n}"
proof -
  have "mset (sort axes) = mset axes" by simp
  then have m: "mset axes = mset (map int [0..<n])" unfolding assms by simp
  have "size (mset axes) = size (mset (map int [0..<n]))" using m by simp
  then show l: "length axes = n" by simp
  have d: "distinct (map int [0..<n])" by (simp add: distinct_map)
  show da: "distinct axes" using mset_eq_imp_distinct_iff [OF m] d by simp
  have "set_mset (mset axes) = set_mset (mset (map int [0..<n]))" using m by simp
  then show s: "set axes = int ` {0..<n}" by simp
  have "inj_on nat (set axes)" unfolding s by (auto simp: inj_on_def)
  then show "distinct (map nat axes)" using da by (simp add: distinct_map)
  show "set (map nat axes) = {0..<n}" using s by (auto simp: image_image)
qed

lemma index_of_map_nat:
  assumes "\<forall>a\<in>set axes. 0 \<le> a"
  shows "index_of axes (int k) = index_of (map nat axes) k"
  using assms by (induction axes) auto

lemma argsort_inverse:
  assumes "sort axes = map int [0..<n]"
  shows "map nat (argsort axes) = map (index_of (map nat axes)) [0..<n]"
    and "sort (argsort axes) = map int [0..<n]"
proof -
  note pf = perm_facts [OF assms]
  have nn: "\<forall>a\<in>set axes. 0 \<le> a" using pf(3) by auto
  show a: "map nat (argsort axes) = map (index_of (map nat axes)) [0..<n]"
    unfolding argsort_def assms using index_of_map_nat [OF nn] by (simp add: comp_def)
  let ?p = "map nat axes"
  let ?q = "map (index_of ?p) [0..<n]"
  have mem: "index_of ?p k < n \<and> ?p ! index_of ?p k = k" if "k < n" for k
  proof -
    have "k \<in> set ?p" using that pf(5) by simp
    from index_of_mem [OF this] show ?thesis using pf(1) by simp
  qed
  have inj: "inj_on (index_of ?p) {0..<n}"
    by (rule inj_onI) (metis mem atLeastLessThan_iff)
  have dq: "distinct ?q" using inj by (simp add: distinct_map)
  have sq: "set ?q = {0..<n}"
  proof
    show "set ?q \<subseteq> {0..<n}" using mem by auto
    show "{0..<n} \<subseteq> set ?q"
    proof
      fix i assume "i \<in> {0..<n}"
      then have i: "i < n" by simp
      have "?p ! i \<in> set ?p" using i pf(1) by (intro nth_mem) simp
      then have b: "?p ! i \<in> {0..<n}" using pf(5) by blast
      have e: "index_of ?p (?p ! i) = i" using index_of_nth [OF pf(4)] i pf(1) by simp
      have "index_of ?p (?p ! i) \<in> index_of ?p ` {0..<n}" using b by (rule imageI)
      then show "i \<in> set ?q" unfolding e by simp
    qed
  qed
  have "(set ?q = set [0..<n]) = (mset ?q = mset [0..<n])"
    by (rule set_eq_iff_mset_eq_distinct [OF dq distinct_upt])
  then have mq: "mset ?q = mset [0..<n]" using sq by simp
  have aq: "argsort axes = map int ?q"
    unfolding argsort_def assms using index_of_map_nat [OF nn] by (simp add: comp_def)
  have "mset (map int ?q) = mset (map int [0..<n])"
    using mq by (metis mset_map)
  then have "mset (map int [0..<n]) = mset (argsort axes)" unfolding aq by simp
  moreover have "sorted (map int [0..<n])" by (simp add: sorted_map)
  ultimately show "sort (argsort axes) = map int [0..<n]"
    by (rule properties_for_sort)
qed

lemma prod_list_perm_nat:
  fixes s :: "nat list"
  assumes "mset p = mset [0..<length s]"
  shows "prod_list (map (\<lambda>ax. s ! ax) p) = prod_list s"
proof -
  have "prod_list (map (\<lambda>ax. s ! ax) p) = prod_mset (image_mset (\<lambda>ax. s ! ax) (mset p))"
    by (metis mset_map prod_mset_prod_list)
  also have "\<dots> = prod_mset (image_mset (\<lambda>ax. s ! ax) (mset [0..<length s]))"
    using assms by simp
  also have "\<dots> = prod_list (map (\<lambda>ax. s ! ax) [0..<length s])"
    by (metis mset_map prod_mset_prod_list)
  also have "\<dots> = prod_list s" by (simp add: map_nth)
  finally show ?thesis .
qed

lemma perm_mset_nat:
  assumes "sort axes = map int [0..<n]"
  shows "mset (map nat axes) = mset [0..<n]"
proof -
  note pf = perm_facts [OF assms]
  have "(set (map nat axes) = set [0..<n]) = (mset (map nat axes) = mset [0..<n])"
    by (rule set_eq_iff_mset_eq_distinct [OF pf(4) distinct_upt])
  then show ?thesis using pf(5) by simp
qed

lemma np_transpose_inverse:
  assumes perm: "sort axes = map int [0..<length s]" and wf: "length xs = prod_list s"
  shows "\<exists>ys. np_transpose (NDArray s xs) axes = Inr (NDArray (map (\<lambda>ax. s ! nat ax) axes) ys)
          \<and> length ys = prod_list s
          \<and> prod_list (map (\<lambda>ax. s ! nat ax) axes) = prod_list s
          \<and> (\<forall>f. np_transpose (NDArray (map (\<lambda>ax. s ! nat ax) axes) (map f ys)) (argsort axes)
                  = Inr (NDArray s (map f xs)))"
proof -
  define n where "n = length s"
  define p where "p = map nat axes"
  define q where "q = map (index_of p) [0..<n]"
  define s' where "s' = map (\<lambda>ax. s ! ax) p"
  define src where "src = (\<lambda>j :: nat list. map (\<lambda>ax. j ! index_of p ax) [0..<n])"
  define ys where "ys = map (\<lambda>m. xs ! ravel s (src (unravel_index s' m))) [0..<prod_list s']"
  note pf = perm_facts [OF perm, folded n_def p_def]
  have perm': "sort axes = map int [0..<n]" using perm n_def by simp
  note ai = argsort_inverse [OF perm', folded p_def q_def]
  have aq: "map nat (argsort axes) = q" using ai(1) q_def by simp
  have lp: "length p = n" using pf(1) p_def by simp
  have ls': "length s' = n" using lp s'_def by simp
  have s'eq: "map (\<lambda>ax. s ! nat ax) axes = s'" unfolding s'_def p_def by (simp add: comp_def)
  have ps': "prod_list s' = prod_list s"
    unfolding s'_def using prod_list_perm_nat [of p s] perm_mset_nat [OF perm'] p_def n_def by simp
  have t1: "np_transpose (NDArray s xs) axes = Inr (NDArray s' ys)"
    unfolding np_transpose_def Let_def ys_def src_def s'_def p_def n_def using perm by simp
  have pmem: "index_of p k < n \<and> p ! index_of p k = k" if "k < n" for k
  proof -
    have "k \<in> set p" using that pf(5) p_def by simp
    from index_of_mem [OF this] show ?thesis using lp by simp
  qed
  have pin: "p ! i < n" if "i < n" for i
  proof -
    have "p ! i \<in> set p" using that lp by simp
    then show ?thesis using pf(5) p_def by simp
  qed
  have pnth: "index_of p (p ! i) = i" if "i < n" for i
    using index_of_nth [of p i] pf(4) that lp p_def by simp
  have lq: "length q = n" unfolding q_def by simp
  have qnth: "q ! k = index_of p k" if "k < n" for k using that unfolding q_def by simp
  have dq: "distinct q"
  proof -
    have "inj_on (index_of p) {0..<n}"
      by (rule inj_onI) (metis pmem atLeastLessThan_iff)
    then show ?thesis unfolding q_def by (simp add: distinct_map)
  qed
  have qidx: "index_of q i = p ! i" if "i < n" for i
  proof -
    have "q ! (p ! i) = i" using qnth [OF pin [OF that]] pnth [OF that] by simp
    moreover have "index_of q (q ! (p ! i)) = p ! i"
      using index_of_nth [OF dq, of "p ! i"] pin [OF that] lq by simp
    ultimately show ?thesis by simp
  qed
  have s''eq: "map (\<lambda>ax. s' ! ax) q = s"
  proof (rule nth_equalityI)
    show "length (map (\<lambda>ax. s' ! ax) q) = length s" using lq n_def by simp
    fix k assume "k < length (map (\<lambda>ax. s' ! ax) q)"
    then have k: "k < n" using lq by simp
    have "s' ! (q ! k) = s ! (p ! index_of p k)"
      unfolding s'_def using qnth [OF k] pmem [OF k] lp by simp
    then show "map (\<lambda>ax. s' ! ax) q ! k = s ! k" using k lq pmem [OF k] by simp
  qed
  have t2: "np_transpose (NDArray s' (map f ys)) (argsort axes) = Inr (NDArray s (map f xs))" for f
  proof -
    have sa: "sort (argsort axes) = map int [0..<length s']" using ai(2) ls' by simp
    have "np_transpose (NDArray s' (map f ys)) (argsort axes)
        = Inr (NDArray (map (\<lambda>ax. s' ! ax) q)
            (map (\<lambda>m. map f ys ! ravel s' (map (\<lambda>ax. unravel_index (map (\<lambda>ax. s' ! ax) q) m ! index_of q ax) [0..<n]))
               [0..<prod_list (map (\<lambda>ax. s' ! ax) q)]))"
      unfolding np_transpose_def Let_def using sa aq ls' by simp
    also have "\<dots> = Inr (NDArray s
            (map (\<lambda>m. map f ys ! ravel s' (map (\<lambda>ax. unravel_index s m ! index_of q ax) [0..<n]))
               [0..<prod_list s]))"
      unfolding s''eq ..
    also have "map (\<lambda>m. map f ys ! ravel s' (map (\<lambda>ax. unravel_index s m ! index_of q ax) [0..<n]))
               [0..<prod_list s] = map f xs"
    proof (rule nth_equalityI)
      show "length (map (\<lambda>m. map f ys ! ravel s' (map (\<lambda>ax. unravel_index s m ! index_of q ax) [0..<n]))
               [0..<prod_list s]) = length (map f xs)" using wf by simp
      fix m assume "m < length (map (\<lambda>m. map f ys ! ravel s' (map (\<lambda>ax. unravel_index s m ! index_of q ax) [0..<n]))
               [0..<prod_list s])"
      then have m: "m < prod_list s" by simp
      define j where "j = unravel_index s m"
      define j' where "j' = map (\<lambda>i. j ! (p ! i)) [0..<n]"
      have lj: "length j = n" unfolding j_def n_def by simp
      have jb: "j ! i < s ! i" if "i < n" for i
        using unravel_index_bound [OF m, of i] that unfolding j_def n_def by simp
      have e1: "map (\<lambda>ax. unravel_index s m ! index_of q ax) [0..<n] = j'"
        unfolding j'_def j_def [symmetric] using qidx by simp
      have lj': "length j' = length s'" unfolding j'_def using ls' by simp
      have j'b: "\<forall>i<length s'. j' ! i < s' ! i"
      proof (intro allI impI)
        fix i assume "i < length s'"
        then have i: "i < n" using ls' by simp
        show "j' ! i < s' ! i"
          unfolding j'_def s'_def using i lp jb [OF pin [OF i]] by simp
      qed
      have rb: "ravel s' j' < prod_list s'" using ravel_bound [OF lj' j'b] .
      have ur: "unravel_index s' (ravel s' j') = j'" using unravel_ravel [OF lj' j'b] .
      have "src j' = map (\<lambda>ax. j ! ax) [0..<n]"
        unfolding src_def j'_def using pmem by simp
      also have "\<dots> = j" using map_nth [of j] lj by simp
      finally have sj: "src j' = j" .
      have "ys ! ravel s' j' = xs ! ravel s (src (unravel_index s' (ravel s' j')))"
        unfolding ys_def using rb by simp
      also have "\<dots> = xs ! m" unfolding ur sj j_def using ravel_unravel [OF m] by simp
      finally have y: "ys ! ravel s' j' = xs ! m" .
      have ly: "length ys = prod_list s'" unfolding ys_def by simp
      have "map f ys ! ravel s' j' = f (xs ! m)" using rb ly y by simp
      then show "map (\<lambda>m. map f ys ! ravel s' (map (\<lambda>ax. unravel_index s m ! index_of q ax) [0..<n]))
               [0..<prod_list s] ! m = map f xs ! m"
        using m wf e1 by simp
    qed
    finally show ?thesis .
  qed
  have ly: "length ys = prod_list s" unfolding ys_def using ps' by simp
  show ?thesis
    unfolding s'eq using t1 ly ps' t2 by blast
qed

lemma fold_update_same:
  "fold (\<lambda>(p, x) d. d[p := x]) (zip ps (map (\<lambda>p. d0 ! p) ps)) d0 = d0"
  by (induction ps) simp_all

lemma mapM_Inr:
  assumes "\<forall>x\<in>set xs. f x = Inr (g x)"
  shows "mapM f xs = Inr (map g xs)"
  using assms by (induction xs) simp_all

lemma selection_length:
  "selection s idx = Inr (rs, ps) \<Longrightarrow> length ps = prod_list rs"
  by (auto simp: selection_def ebind_eq_Inr split: if_splits)

lemma np_reshape_ok:
  assumes "\<forall>d\<in>set newshape. \<exists>k. d = Some (int k)"
    and "prod_list (map (\<lambda>d. nat (the d)) newshape) = length xs"
  shows "np_reshape (NDArray s xs) newshape = Inr (NDArray (map (\<lambda>d. nat (the d)) newshape) xs)"
proof -
  have a: "None \<notin> set newshape" using assms(1) by auto
  have b: "\<not> (\<exists>d\<in>set newshape. d \<noteq> None \<and> the d < 0)" using assms(1) by fastforce
  show ?thesis unfolding np_reshape_def using a b assms(2) by (simp add: Let_def)
qed

lemma chunk_round_id:
  fixes to_buffer :: "'a \<Rightarrow> 'b" and data :: "'a ndarray"
  assumes inv: "\<forall>x. to_data (to_buffer x) = x"
    and sel: "selection (arr_shape data) idxChunk = Inr (rs, positions)"
    and shp: "idxShape = map (\<lambda>d. Some (int d)) rs"
    and perm: "sort tA = map int [0..<length rs]"
    and cnt: "0 \<le> nMca" "0 \<le> nChan" "nat nMca * nat nChan = prod_list rs"
    and buf: "arr_shape buffer = [nB, nat nChan]" "nMca \<le> int nB"
  shows "\<exists>bd. chunk_round to_buffer to_data pc tA (argsort tA) nChan (idxChunk, idxShape, nMca)
              (data, buffer) = Inr (data, NDArray (arr_shape buffer) bd)"
proof -
  define xs where "xs = map (\<lambda>p. arr_data data ! p) positions"
  define s' where "s' = map (\<lambda>ax. rs ! nat ax) tA"
  have lxs: "length xs = prod_list rs" unfolding xs_def using selection_length [OF sel] by simp
  obtain ys where t1: "np_transpose (NDArray rs xs) tA = Inr (NDArray s' ys)"
    and ly: "length ys = prod_list rs" and ps': "prod_list s' = prod_list rs"
    and t2: "\<And>f :: 'a \<Rightarrow> 'b. np_transpose (NDArray s' (map f ys)) (argsort tA) = Inr (NDArray rs (map f xs))"
    using np_transpose_inverse [OF perm lxs] unfolding s'_def by blast
  have s1: "buffer_slice buffer nMca = Inr nMca"
    unfolding buffer_slice_def using buf cnt(1) by (simp add: sliceLen_prefix)
  have s2: "np_getitem data idxChunk = Inr (NDArray rs xs)"
    unfolding np_getitem_def xs_def using sel by simp
  have s4: "np_reshape (NDArray s' ys) [Some nMca, Some nChan] = Inr (NDArray [nat nMca, nat nChan] ys)"
  proof -
    have "\<exists>k. nMca = int k" "\<exists>k. nChan = int k"
      using cnt(1,2) by (auto intro: exI [of _ "nat nMca"] exI [of _ "nat nChan"])
    then show ?thesis
      using np_reshape_ok [of "[Some nMca, Some nChan]" ys s'] cnt ly by simp
  qed
  define bd where "bd = map to_buffer ys @ drop (length ys) (arr_data buffer)"
  have pf: "set tA = int ` {0..<length rs}" using perm_facts(3) [OF perm] .
  have s7: "mapM (\<lambda>i. py_getitem idxShape i) tA = Inr (map (\<lambda>ax. Some (int (rs ! nat ax))) tA)"
  proof (rule mapM_Inr, rule ballI)
    fix i assume "i \<in> set tA"
    then have i: "0 \<le> i" "i < int (length rs)" using pf by auto
    then have "py_getitem idxShape i = Inr (idxShape ! nat i)"
      using py_getitem_nth [of i idxShape] shp by simp
    then show "py_getitem idxShape i = Inr (Some (int (rs ! nat i)))"
      using i shp by (simp add: nat_less_iff)
  qed
  have tk: "take (nat nMca * nat nChan) bd = map to_buffer ys"
    unfolding bd_def using cnt(3) ly by simp
  have s8: "np_reshape (NDArray [nat nMca, nat nChan] (map to_buffer ys))
              (map (\<lambda>ax. Some (int (rs ! nat ax))) tA) = Inr (NDArray s' (map to_buffer ys))"
  proof -
    have m: "map (\<lambda>d. nat (the d)) (map (\<lambda>ax. Some (int (rs ! nat ax))) tA) = s'"
      unfolding s'_def by (simp add: comp_def)
    have "np_reshape (NDArray [nat nMca, nat nChan] (map to_buffer ys))
              (map (\<lambda>ax. Some (int (rs ! nat ax))) tA)
          = Inr (NDArray (map (\<lambda>d. nat (the d)) (map (\<lambda>ax. Some (int (rs ! nat ax))) tA)) (map to_buffer ys))"
    proof (rule np_reshape_ok)
      show "\<forall>d\<in>set (map (\<lambda>ax. Some (int (rs ! nat ax))) tA). \<exists>k. d = Some (int k)" by auto
      show "prod_list (map (\<lambda>d. nat (the d)) (map (\<lambda>ax. Some (int (rs ! nat ax))) tA))
              = length (map to_buffer ys)" unfolding m using ps' ly by simp
    qed
    then show ?thesis unfolding m .
  qed
  have s10: "np_setitem data idxChunk (NDArray rs (map to_data (map to_buffer xs))) = Inr data"
  proof -
    have e: "map to_data (map to_buffer xs) = xs" using inv by (induction xs) simp_all
    have "np_setitem data idxChunk (NDArray rs xs)
        = Inr (NDArray (arr_shape data)
                 (fold (\<lambda>(p, x) d. d[p := x]) (zip positions xs) (arr_data data)))"
      unfolding np_setitem_def using sel by simp
    also have "fold (\<lambda>(p, x) d. d[p := x]) (zip positions xs) (arr_data data) = arr_data data"
      unfolding xs_def by (rule fold_update_same)
    finally show ?thesis unfolding e by simp
  qed
  have "chunk_round to_buffer to_data pc tA (argsort tA) nChan (idxChunk, idxShape, nMca)
              (data, buffer) = Inr (data, NDArray (arr_shape buffer) bd)"
    unfolding chunk_round_def
    using s1 s2 t1 s4 s7 tk [unfolded bd_def] s8 t2 [of to_buffer] s10
    by (simp add: Let_def bd_def)
  then show ?thesis by blast
qed

section \<open>The claims\<close>

text \<open>C1. Dense planner, exact partition. Take any shape of non-negative sizes, any
  requested capacity, and any axis assignment that \<open>chunkIndexParameters\<close> accepts and
  whose chunk (channel) axes are axes of the array, with chunk slices of nonzero step.
  Then \<open>fullChunkIndex\<close> returns, \<open>chunkIndexProduct\<close> enumerates its chunks without
  raising, every coordinate tuple of the order-axes index space (written in the order
  \<open>rev axesOrder\<close>, the ascending dimension order for the default traversal) is
  selected by exactly one chunk and exactly once, and the counts of the chunks sum to
  the product of the order-axis sizes.\<close>

theorem dense_exact_partition:
  assumes nonneg: "\<forall>d\<in>set shape. 0 \<le> d"
    and params: "chunkIndexParameters shape cap0 ca0 ao0 sl0 dflt = Inr (cap, ca, ao, sl)"
    and carange: "\<forall>ax\<in>set ca. 0 \<le> ax \<and> ax < int (length shape)"
    and steps: "\<forall>s\<in>set sl. slice_step s \<noteq> Some 0"
  shows "\<exists>chunkIndex nBuffer chunks.
      fullChunkIndex shape cap0 ca0 ao0 sl0 dflt = Inr (chunkIndex, ca, ao, nBuffer)
    \<and> chunkIndexProduct chunkIndex ca ao = Inr chunks
    \<and> mset (concat (map (chunkRows shape (rev ao)) chunks))
        = mset (product_lists (map (\<lambda>ax. range_list (shape ! nat ax)) (rev ao)))
    \<and> distinct (concat (map (chunkRows shape (rev ao)) chunks))
    \<and> sum_list (map chunkCount chunks) = prod_list (map (\<lambda>ax. shape ! nat ax) ao)"
proof -
  note pf = chunkIndexParameters_facts [OF params]
  note af = axesOrder_facts [OF pf(3)]
  have cap1: "1 \<le> cap" using pf(1) by simp
  have "\<forall>(ax, idx)\<in>set (zip ca sl). 0 \<le> ax \<and> ax < int (length shape) \<and> slice_step idx \<noteq> Some 0"
    using carange steps by (auto dest: set_zip_leftD set_zip_rightD)
  then obtain ci1 where c1: "chunkAxesIndex shape (zip ca sl) = Inr ci1"
    using chunkAxesIndex_total [OF nonneg] by blast
  have l1: "length ci1 = length ca" and sg: "\<forall>p\<in>set ci1. \<exists>e. p = [e]"
    using chunkAxesIndex_shape [OF c1] pf(2) by simp_all
  obtain new fs where
    r: "orderAxesIndex shape cap ao (1, 1, [])
           = Inr (1 * prod_list (map (\<lambda>ax. shape ! nat ax) ao), 1 * prod_list fs, [] @ new)"
    and l: "length new = length ao" "length fs = length ao"
    and ok: "\<forall>i<length ao. piecesOK (shape ! nat (ao ! i)) (fs ! i) (new ! i) \<and> 0 \<le> fs ! i"
    using orderAxesIndex_ok [OF cap1 nonneg af(3) zero_le_one, of 1 "[]"] by blast
  have full: "fullChunkIndex shape cap0 ca0 ao0 sl0 dflt = Inr (ci1 @ rev new, ca, ao, prod_list fs)"
    unfolding fullChunkIndex_def using params c1 r by simp
  let ?L = "length (ca @ rev ao)"
  let ?R = "product_lists (rev new)"
  let ?g = "\<lambda>ax p. indexRows (SliceIdx (fst p)) (shape ! nat ax)"
  let ?Q2 = "\<lambda>r c. chunkCount c = prod_list (map snd r)
               \<and> chunkRows shape (rev ao) c = product_lists (map2 ?g (rev ao) r)"
  let ?Q = "\<lambda>choice c. ?Q2 (drop (length ca) choice) c"
  have ch: "product_lists (ci1 @ rev new) = map (\<lambda>r. map hd ci1 @ r) ?R"
    by (rule product_lists_singletons [OF sg])
  have inL: "\<forall>ax\<in>set ao. 0 \<le> ax \<and> ax < int ?L" "\<forall>ax\<in>set ca. 0 \<le> ax \<and> ax < int ?L"
    using af(3,4) carange by auto
  have each: "\<forall>choice\<in>set (product_lists (ci1 @ rev new)). \<forall>d s. length d = ?L \<longrightarrow> length s = ?L \<longrightarrow>
             (\<exists>c. assignAxes ao (zip (ca @ rev ao) choice) (d, s, 1) = Inr c \<and> ?Q choice c)"
  proof (intro ballI allI impI)
    fix choice :: "(slice \<times> int) list" and d :: "index list" and s :: "int option list"
    assume cin: "choice \<in> set (product_lists (ci1 @ rev new))"
      and ld: "length d = ?L" and ls: "length s = ?L"
    then obtain r where rin: "r \<in> set ?R" and ce: "choice = map hd ci1 @ r"
      unfolding ch by auto
    have lr: "length r = length ao" using in_set_product_lists_length [OF rin] l by simp
    have lc: "length (map hd ci1) = length ca" using l1 by simp
    have dr: "drop (length ca) choice = r" unfolding ce using l1 by simp
    show "\<exists>c. assignAxes ao (zip (ca @ rev ao) choice) (d, s, 1) = Inr c \<and> ?Q choice c"
      unfolding dr unfolding ce
      by (rule dense_assign [OF lc lr af(1,2) inL ld ls])
  qed
  have "\<exists>chunks. productLoop ao (ca @ rev ao) (product_lists (ci1 @ rev new))
           (replicate ?L NoneIdx, replicate ?L None) = Inr chunks
         \<and> list_all2 ?Q (product_lists (ci1 @ rev new)) chunks"
    by (rule productLoop_all2 [OF each]) simp_all
  then obtain chunks where
    pl: "productLoop ao (ca @ rev ao) (product_lists (ci1 @ rev new))
           (replicate ?L NoneIdx, replicate ?L None) = Inr chunks"
    and all2: "list_all2 ?Q (product_lists (ci1 @ rev new)) chunks"
    by blast
  have prod: "chunkIndexProduct (ci1 @ rev new) ca ao = Inr chunks"
    unfolding chunkIndexProduct_def Let_def using pl by simp
  have all2': "list_all2 ?Q2 ?R chunks"
    using all2 l1 unfolding ch by (simp add: list_all2_map1)
  have cnt: "map chunkCount chunks = map (\<lambda>r. prod_list (map snd r)) ?R"
    by (rule list_all2_map_eq) (rule list_all2_mono [OF all2'], simp)
  have rows: "map (chunkRows shape (rev ao)) chunks
      = map (\<lambda>r. product_lists (map2 ?g (rev ao) r)) ?R"
    by (rule list_all2_map_eq) (rule list_all2_mono [OF all2'], simp)
  let ?Qs = "map2 (\<lambda>ax ps. map (?g ax) ps) (rev ao) (rev new)"
  have lrev: "length (rev ao) = length (rev new)" using l by simp
  have pq: "product_lists ?Qs = map (\<lambda>r. map2 ?g (rev ao) r) ?R"
    by (rule product_lists_map2 [OF lrev])
  have rows': "map (chunkRows shape (rev ao)) chunks = map product_lists (product_lists ?Qs)"
    unfolding rows pq by (simp add: comp_def)
  have okrev: "piecesOK (shape ! nat (rev ao ! i)) (rev fs ! i) (rev new ! i)" if "i < length ao" for i
    using ok that l by (simp add: rev_nth)
  have cq: "map concat ?Qs = map (\<lambda>ax. range_list (shape ! nat ax)) (rev ao)"
  proof (rule nth_equalityI)
    show "length (map concat ?Qs) = length (map (\<lambda>ax. range_list (shape ! nat ax)) (rev ao))"
      using l by simp
  next
    fix i assume "i < length (map concat ?Qs)"
    then have i: "i < length ao" using l by simp
    have "concat (map (?g (rev ao ! i)) (rev new ! i)) = range_list (shape ! nat (rev ao ! i))"
      using okrev [OF i] unfolding piecesOK_def by (simp add: split_def)
    then show "map concat ?Qs ! i = map (\<lambda>ax. range_list (shape ! nat ax)) (rev ao) ! i"
      using i l by simp
  qed
  have ms: "mset (concat (map (chunkRows shape (rev ao)) chunks))
        = mset (product_lists (map (\<lambda>ax. range_list (shape ! nat ax)) (rev ao)))"
    unfolding rows' mset_product_concat cq ..
  have "distinct (product_lists (map (\<lambda>ax. range_list (shape ! nat ax)) (rev ao)))"
    by (intro distinct_product_lists) (auto simp: upto_distinct)
  then have ds: "distinct (concat (map (chunkRows shape (rev ao)) chunks))"
    using ms by (metis mset_eq_imp_distinct_iff)
  have "sum_list (map chunkCount chunks) = (\<Sum>r\<leftarrow>?R. prod_list (map snd r))"
    unfolding cnt ..
  also have "\<dots> = prod_list (map (\<lambda>ps. \<Sum>p\<leftarrow>ps. snd p) (rev new))"
    by (rule sum_product_lists)
  also have "map (\<lambda>ps. \<Sum>p\<leftarrow>ps. snd p) (rev new) = map (\<lambda>ax. shape ! nat ax) (rev ao)"
  proof (rule nth_equalityI)
    show "length (map (\<lambda>ps. \<Sum>p\<leftarrow>ps. snd p) (rev new)) = length (map (\<lambda>ax. shape ! nat ax) (rev ao))"
      using l by simp
  next
    fix i assume "i < length (map (\<lambda>ps. \<Sum>p\<leftarrow>ps. snd p) (rev new))"
    then have i: "i < length ao" using l by simp
    have "rev ao ! i \<in> set ao" using i by (metis length_rev nth_mem set_rev)
    then have "0 \<le> rev ao ! i \<and> rev ao ! i < int (length shape)" using af(3) by blast
    then have "nat (rev ao ! i) < length shape" by (simp add: nat_less_iff)
    then have "0 \<le> shape ! nat (rev ao ! i)" using nonneg nth_mem by blast
    then have "sum_list (map snd (rev new ! i)) = shape ! nat (rev ao ! i)"
      using piecesOK_sum [OF okrev [OF i]] by simp
    then show "map (\<lambda>ps. \<Sum>p\<leftarrow>ps. snd p) (rev new) ! i = map (\<lambda>ax. shape ! nat ax) (rev ao) ! i"
      using i l by simp
  qed
  also have "prod_list (map (\<lambda>ax. shape ! nat ax) (rev ao)) = prod_list (map (\<lambda>ax. shape ! nat ax) ao)"
    by (simp add: rev_map [symmetric] prod_list_rev_int)
  finally have sm: "sum_list (map chunkCount chunks) = prod_list (map (\<lambda>ax. shape ! nat ax) ao)" .
  show ?thesis using full prod ms ds sm by blast
qed

theorem dense_exact_partition_witness:
  "list_all (\<lambda>d. 0 \<le> d) [2, 3, 2 :: int]
   \<and> chunkIndexParameters [2, 3, 2] 2 (Some [- 1]) None None ''C''
       = Inr (2, [2], [1, 0], [Slice None None None])
   \<and> list_all (\<lambda>ax. 0 \<le> ax \<and> ax < int (length [2, 3, 2 :: int])) [2 :: int]
   \<and> list_all (\<lambda>s. slice_step s \<noteq> Some 0) [Slice None None None]
   \<and> (\<exists>chunkIndex nBuffer chunks.
      fullChunkIndex [2, 3, 2] 2 (Some [- 1]) None None ''C'' = Inr (chunkIndex, [2], [1, 0], nBuffer)
    \<and> chunkIndexProduct chunkIndex [2] [1, 0] = Inr chunks
    \<and> mset (concat (map (chunkRows [2, 3, 2] (rev [1, 0])) chunks))
        = mset (product_lists (map (\<lambda>ax. range_list ([2, 3, 2] ! nat ax)) (rev [1, 0])))
    \<and> distinct (concat (map (chunkRows [2, 3, 2] (rev [1, 0])) chunks))
    \<and> sum_list (map chunkCount chunks) = prod_list (map (\<lambda>ax. [2, 3, 2] ! nat ax) [1, 0]))"
proof -
  have h1: "\<forall>d\<in>set [2, 3, 2 :: int]. 0 \<le> d" by simp
  have h2: "chunkIndexParameters [2, 3, 2] 2 (Some [- 1]) None None ''C''
       = Inr (2, [2], [1, 0], [Slice None None None])" by code_simp
  have h3: "\<forall>ax\<in>set [2 :: int]. 0 \<le> ax \<and> ax < int (length [2, 3, 2 :: int])" by simp
  have h4: "\<forall>s\<in>set [Slice None None None]. slice_step s \<noteq> Some 0" by simp
  show ?thesis
    using dense_exact_partition [OF h1 h2 h3 h4] h2 by simp
qed

text \<open>C3 (as stated it fails). For shape \<open>(100, 10)\<close>, channel axis 1 and row capacity
  30 the dense planner yields four chunks of 25 rows each, not \<open>[30, 30, 30, 10]\<close>.\<close>

theorem first_axis_split_counterexample:
  "fullChunkIndex [100, 10] 30 (Some [1]) None None ''C''
     = Inr ([[(Slice None None None, 10)],
       [(Slice (Some 0) (Some 25) (Some 1), 25), (Slice (Some 25) (Some 50) (Some 1), 25),
        (Slice (Some 50) (Some 75) (Some 1), 25), (Slice (Some 75) (Some 100) (Some 1), 25)]], [1], [0], 25)
   \<and> chunkIndexProduct [[(Slice None None None, 10)],
       [(Slice (Some 0) (Some 25) (Some 1), 25), (Slice (Some 25) (Some 50) (Some 1), 25),
        (Slice (Some 50) (Some 75) (Some 1), 25), (Slice (Some 75) (Some 100) (Some 1), 25)]] [1] [0]
     = Inr [([SliceIdx (Slice (Some 0) (Some 25) (Some 1)), SliceIdx (Slice None None None)],
        [Some 25, Some 10], 25),
       ([SliceIdx (Slice (Some 25) (Some 50) (Some 1)), SliceIdx (Slice None None None)],
        [Some 25, Some 10], 25),
       ([SliceIdx (Slice (Some 50) (Some 75) (Some 1)), SliceIdx (Slice None None None)],
        [Some 25, Some 10], 25),
       ([SliceIdx (Slice (Some 75) (Some 100) (Some 1)), SliceIdx (Slice None None None)],
        [Some 25, Some 10], 25)]
   \<and> map chunkCount [([SliceIdx (Slice (Some 0) (Some 25) (Some 1)), SliceIdx (Slice None None None)],
        [Some 25, Some 10], 25),
       ([SliceIdx (Slice (Some 25) (Some 50) (Some 1)), SliceIdx (Slice None None None)],
        [Some 25, Some 10], 25),
       ([SliceIdx (Slice (Some 50) (Some 75) (Some 1)), SliceIdx (Slice None None None)],
        [Some 25, Some 10], 25),
       ([SliceIdx (Slice (Some 75) (Some 100) (Some 1)), SliceIdx (Slice None None None)],
        [Some 25, Some 10], 25)] = [25, 25, 25, 25]
   \<and> map chunkCount [([SliceIdx (Slice (Some 0) (Some 25) (Some 1)), SliceIdx (Slice None None None)],
        [Some 25, Some 10], 25),
       ([SliceIdx (Slice (Some 25) (Some 50) (Some 1)), SliceIdx (Slice None None None)],
        [Some 25, Some 10], 25),
       ([SliceIdx (Slice (Some 50) (Some 75) (Some 1)), SliceIdx (Slice None None None)],
        [Some 25, Some 10], 25),
       ([SliceIdx (Slice (Some 75) (Some 100) (Some 1)), SliceIdx (Slice None None None)],
        [Some 25, Some 10], 25)] \<noteq> [30, 30, 30, 10]"
  by code_simp

text \<open>C3 (amended). When the first order axis alone exceeds the capacity
  (\<open>nItems = 1\<close>), the code takes the same branch as for any boundary axis: the axis
  of size \<open>N\<close> is cut into \<open>n = ceil(N / capacity)\<close> pieces of the equalised length
  \<open>step = ceil(N / n)\<close>, which is at most the capacity; the pieces cover the axis in
  order and only the last one may be shorter. For shape \<open>(100, 10)\<close>, channel axis 1
  and row capacity 30 this gives exactly 4 chunks with row counts \<open>[25, 25, 25, 25]\<close>,
  covering rows 0..99 in order.\<close>

theorem first_axis_split:
  "(fullChunkIndex shape cap0 ca0 ao0 sl0 dflt = Inr (chunkIndex, ca, ax # rest, nBuffer)
      \<longrightarrow> (\<forall>d\<in>set shape. 0 \<le> d) \<longrightarrow> max cap0 1 < shape ! nat ax \<longrightarrow>
      (let cap = max cap0 1; N = shape ! nat ax;
           n = N div cap + int_bool (N mod cap);
           step = N div n + int_bool (N mod n)
       in last chunkIndex
            = map (\<lambda>k. (Slice (Some (int k * step)) (Some (min (int k * step + step) N)) (Some 1),
                         min (int k * step + step) N - int k * step)) [0..<nat n]
          \<and> 1 \<le> step \<and> step \<le> cap \<and> (n - 1) * step < N \<and> N \<le> n * step))
   \<and> fullChunkIndex [100, 10] 30 (Some [1]) None None ''C''
     = Inr ([[(Slice None None None, 10)],
       [(Slice (Some 0) (Some 25) (Some 1), 25), (Slice (Some 25) (Some 50) (Some 1), 25),
        (Slice (Some 50) (Some 75) (Some 1), 25), (Slice (Some 75) (Some 100) (Some 1), 25)]], [1], [0], 25)
   \<and> chunkIndexProduct [[(Slice None None None, 10)],
       [(Slice (Some 0) (Some 25) (Some 1), 25), (Slice (Some 25) (Some 50) (Some 1), 25),
        (Slice (Some 50) (Some 75) (Some 1), 25), (Slice (Some 75) (Some 100) (Some 1), 25)]] [1] [0]
     = Inr [([SliceIdx (Slice (Some 0) (Some 25) (Some 1)), SliceIdx (Slice None None None)],
        [Some 25, Some 10], 25),
       ([SliceIdx (Slice (Some 25) (Some 50) (Some 1)), SliceIdx (Slice None None None)],
        [Some 25, Some 10], 25),
       ([SliceIdx (Slice (Some 50) (Some 75) (Some 1)), SliceIdx (Slice None None None)],
        [Some 25, Some 10], 25),
       ([SliceIdx (Slice (Some 75) (Some 100) (Some 1)), SliceIdx (Slice None None None)],
        [Some 25, Some 10], 25)]
   \<and> map chunkCount [([SliceIdx (Slice (Some 0) (Some 25) (Some 1)), SliceIdx (Slice None None None)],
        [Some 25, Some 10], 25),
       ([SliceIdx (Slice (Some 25) (Some 50) (Some 1)), SliceIdx (Slice None None None)],
        [Some 25, Some 10], 25),
       ([SliceIdx (Slice (Some 50) (Some 75) (Some 1)), SliceIdx (Slice None None None)],
        [Some 25, Some 10], 25),
       ([SliceIdx (Slice (Some 75) (Some 100) (Some 1)), SliceIdx (Slice None None None)],
        [Some 25, Some 10], 25)] = [25, 25, 25, 25]
   \<and> concat (map (\<lambda>c. indexRows (fst c ! 0) 100) ([([SliceIdx (Slice (Some 0) (Some 25) (Some 1)), SliceIdx (Slice None None None)],
        [Some 25, Some 10], 25),
       ([SliceIdx (Slice (Some 25) (Some 50) (Some 1)), SliceIdx (Slice None None None)],
        [Some 25, Some 10], 25),
       ([SliceIdx (Slice (Some 50) (Some 75) (Some 1)), SliceIdx (Slice None None None)],
        [Some 25, Some 10], 25),
       ([SliceIdx (Slice (Some 75) (Some 100) (Some 1)), SliceIdx (Slice None None None)],
        [Some 25, Some 10], 25)] :: chunk list)) = range_list 100"
proof -
  have gen: "fullChunkIndex shape cap0 ca0 ao0 sl0 dflt = Inr (chunkIndex, ca, ax # rest, nBuffer)
      \<longrightarrow> (\<forall>d\<in>set shape. 0 \<le> d) \<longrightarrow> max cap0 1 < shape ! nat ax \<longrightarrow>
      (let cap = max cap0 1; N = shape ! nat ax;
           n = N div cap + int_bool (N mod cap);
           step = N div n + int_bool (N mod n)
       in last chunkIndex
            = map (\<lambda>k. (Slice (Some (int k * step)) (Some (min (int k * step + step) N)) (Some 1),
                         min (int k * step + step) N - int k * step)) [0..<nat n]
          \<and> 1 \<le> step \<and> step \<le> cap \<and> (n - 1) * step < N \<and> N \<le> n * step)"
  proof (intro impI)
    assume full: "fullChunkIndex shape cap0 ca0 ao0 sl0 dflt = Inr (chunkIndex, ca, ax # rest, nBuffer)"
      and nonneg: "\<forall>d\<in>set shape. 0 \<le> d" and big: "max cap0 1 < shape ! nat ax"
    obtain ci1 ci2 where ci: "chunkIndex = ci1 @ rev ci2" and l: "length ci2 = length (ax # rest)"
      and sp: "\<exists>b. splitAxis (max cap0 1) 1 1 (shape ! nat ax) = Inr (hd ci2, b)"
      using fullChunkIndex_structure [OF full nonneg] by blast
    have c1: "1 \<le> max cap0 1" by simp
    note fp = first_axis_pieces [OF c1 big]
    have "ci2 \<noteq> []" using l by auto
    then have lc: "last chunkIndex = hd ci2" unfolding ci by (simp add: last_rev)
    obtain b where b: "splitAxis (max cap0 1) 1 1 (shape ! nat ax) = Inr (hd ci2, b)"
      using sp by blast
    note e = trans [OF b [symmetric] fp(1) [of 1], unfolded sum.inject prod.inject, THEN conjunct1]
    show "let cap = max cap0 1; N = shape ! nat ax;
           n = N div cap + int_bool (N mod cap);
           step = N div n + int_bool (N mod n)
       in last chunkIndex
            = map (\<lambda>k. (Slice (Some (int k * step)) (Some (min (int k * step + step) N)) (Some 1),
                         min (int k * step + step) N - int k * step)) [0..<nat n]
          \<and> 1 \<le> step \<and> step \<le> cap \<and> (n - 1) * step < N \<and> N \<le> n * step"
      unfolding Let_def lc e by (intro conjI refl fp(2-5))
  qed
  have s1: "fullChunkIndex [100, 10] 30 (Some [1]) None None ''C''
     = Inr ([[(Slice None None None, 10)],
       [(Slice (Some 0) (Some 25) (Some 1), 25), (Slice (Some 25) (Some 50) (Some 1), 25),
        (Slice (Some 50) (Some 75) (Some 1), 25), (Slice (Some 75) (Some 100) (Some 1), 25)]], [1], [0], 25)"
    by code_simp
  have s2: "chunkIndexProduct [[(Slice None None None, 10)],
       [(Slice (Some 0) (Some 25) (Some 1), 25), (Slice (Some 25) (Some 50) (Some 1), 25),
        (Slice (Some 50) (Some 75) (Some 1), 25), (Slice (Some 75) (Some 100) (Some 1), 25)]] [1] [0]
     = Inr [([SliceIdx (Slice (Some 0) (Some 25) (Some 1)), SliceIdx (Slice None None None)],
        [Some 25, Some 10], 25),
       ([SliceIdx (Slice (Some 25) (Some 50) (Some 1)), SliceIdx (Slice None None None)],
        [Some 25, Some 10], 25),
       ([SliceIdx (Slice (Some 50) (Some 75) (Some 1)), SliceIdx (Slice None None None)],
        [Some 25, Some 10], 25),
       ([SliceIdx (Slice (Some 75) (Some 100) (Some 1)), SliceIdx (Slice None None None)],
        [Some 25, Some 10], 25)]"
    by code_simp
  have s3: "map chunkCount [([SliceIdx (Slice (Some 0) (Some 25) (Some 1)), SliceIdx (Slice None None None)],
        [Some 25, Some 10], 25),
       ([SliceIdx (Slice (Some 25) (Some 50) (Some 1)), SliceIdx (Slice None None None)],
        [Some 25, Some 10], 25),
       ([SliceIdx (Slice (Some 50) (Some 75) (Some 1)), SliceIdx (Slice None None None)],
        [Some 25, Some 10], 25),
       ([SliceIdx (Slice (Some 75) (Some 100) (Some 1)), SliceIdx (Slice None None None)],
        [Some 25, Some 10], 25)] = [25, 25, 25, 25 :: int]"
    by code_simp
  have s4: "concat (map (\<lambda>c. indexRows (fst c ! 0) 100) ([([SliceIdx (Slice (Some 0) (Some 25) (Some 1)), SliceIdx (Slice None None None)],
        [Some 25, Some 10], 25),
       ([SliceIdx (Slice (Some 25) (Some 50) (Some 1)), SliceIdx (Slice None None None)],
        [Some 25, Some 10], 25),
       ([SliceIdx (Slice (Some 50) (Some 75) (Some 1)), SliceIdx (Slice None None None)],
        [Some 25, Some 10], 25),
       ([SliceIdx (Slice (Some 75) (Some 100) (Some 1)), SliceIdx (Slice None None None)],
        [Some 25, Some 10], 25)] :: chunk list)) = range_list 100"
    by (simp add: indexRows_piece range_list_upto upto_rec1 [of 0] upto_rec1 [of 1])
  show ?thesis by (intro conjI gen s1 s2 s3 s4)
qed

theorem first_axis_split_witness:
  "fullChunkIndex [100, 10] 30 (Some [1]) None None ''C''
     = Inr ([[(Slice None None None, 10)],
       [(Slice (Some 0) (Some 25) (Some 1), 25), (Slice (Some 25) (Some 50) (Some 1), 25),
        (Slice (Some 50) (Some 75) (Some 1), 25), (Slice (Some 75) (Some 100) (Some 1), 25)]], [1], [0], 25)
   \<and> list_all (\<lambda>d. 0 \<le> d) [100, 10 :: int] \<and> max 30 1 < [100, 10 :: int] ! nat 0
   \<and> last [[(Slice None None None, 10)],
       [(Slice (Some 0) (Some 25) (Some 1), 25), (Slice (Some 25) (Some 50) (Some 1), 25),
        (Slice (Some 50) (Some 75) (Some 1), 25), (Slice (Some 75) (Some 100) (Some 1), 25)]]
       = map (\<lambda>k. (Slice (Some (int k * 25)) (Some (min (int k * 25 + 25) 100)) (Some 1),
                    min (int k * 25 + 25) 100 - int k * 25)) [0..<nat 4]"
proof -
  have h1: "fullChunkIndex [100, 10] 30 (Some [1]) None None ''C''
     = Inr ([[(Slice None None None, 10)],
       [(Slice (Some 0) (Some 25) (Some 1), 25), (Slice (Some 25) (Some 50) (Some 1), 25),
        (Slice (Some 50) (Some 75) (Some 1), 25), (Slice (Some 75) (Some 100) (Some 1), 25)]], [1], [0 :: int] , 25)" by code_simp
  have h2: "\<forall>d\<in>set [100, 10 :: int]. 0 \<le> d" by simp
  have h3: "max 30 1 < [100, 10 :: int] ! nat 0" by simp
  have "let cap = max 30 1; N = [100, 10 :: int] ! nat 0;
           n = N div cap + int_bool (N mod cap);
           step = N div n + int_bool (N mod n)
       in last [[(Slice None None None, 10)],
       [(Slice (Some 0) (Some 25) (Some 1), 25), (Slice (Some 25) (Some 50) (Some 1), 25),
        (Slice (Some 50) (Some 75) (Some 1), 25), (Slice (Some 75) (Some 100) (Some 1), 25)]]
            = map (\<lambda>k. (Slice (Some (int k * step)) (Some (min (int k * step + step) N)) (Some 1),
                         min (int k * step + step) N - int k * step)) [0..<nat n]
          \<and> 1 \<le> step \<and> step \<le> cap \<and> (n - 1) * step < N \<and> N \<le> n * step"
    using first_axis_split [THEN conjunct1, THEN mp, OF h1, THEN mp, OF h2, THEN mp, OF h3] .
  then show ?thesis using h1 h2 h3 by (simp add: Let_def int_bool_def)
qed



text \<open>C10. Buffer slice in bounds. Every chunk enumerated from the result of
  \<open>fullChunkIndex\<close> has a count between 0 and the \<open>nBuffer\<close> that \<open>fullChunkIndex\<close>
  returns, and every chunk of \<open>maskedChunkIndex\<close> has a count between 0 and the fourth
  component that it returns. A view that \<open>MaskedView.__init__\<close> builds takes the
  number of rows of its buffer from that component of its planner; \<open>_prepareAccess\<close>
  allocates the buffer with that many rows; and for every chunk that \<open>items\<close> goes
  through, the slice \<open>buffer[:count, :]\<close> has exactly \<open>count\<close> rows, none beyond the
  buffer.\<close>

theorem buffer_slice_in_bounds:
  assumes "\<forall>d\<in>set shape. 0 \<le> d"
  shows "(fullChunkIndex shape cap0 ca0 ao0 sl0 dflt = Inr (chunkIndex, ca, ao, nBuffer)
          \<longrightarrow> chunkIndexProduct chunkIndex ca ao = Inr chunks
          \<longrightarrow> (\<forall>c\<in>set chunks. 0 \<le> chunkCount c \<and> chunkCount c \<le> nBuffer))
       \<and> (maskedChunkIndex shape cap0 mask0 ca0 ao0 sl0 dflt = Inr (mchunks, mca, mao, nMax)
          \<longrightarrow> (\<forall>c. Some c \<in> set mchunks \<longrightarrow> 0 \<le> chunkCount c \<and> chunkCount c \<le> nMax))
       \<and> (MaskedView_init shape vmask nMca0 mcaAxis0 mcaSlice0 axesOrder0 readonly = Inr v
          \<longrightarrow> (\<exists>nRows nChan buffer.
                view_bufferShape v = (nRows, nChan)
              \<and> (case vmask of
                   None \<Rightarrow> \<exists>d. fullChunkIndex shape nMca0
                                  (Some [case mcaAxis0 of None \<Rightarrow> - 1 | Some a \<Rightarrow> a]) axesOrder0
                                  (Some [case mcaSlice0 of None \<Rightarrow> Slice None None None | Some s \<Rightarrow> s])
                                  ''C''
                                = Inr (d, view_chunkAxes v, view_axesOrder v, nRows)
                              \<and> view_chunkIndex v = DenseIndex d
                 | Some msk \<Rightarrow> \<exists>m. maskedChunkIndex shape nMca0 (Some msk)
                                  (Some [case mcaAxis0 of None \<Rightarrow> - 1 | Some a \<Rightarrow> a]) axesOrder0
                                  (Some [case mcaSlice0 of None \<Rightarrow> Slice None None None | Some s \<Rightarrow> s])
                                  ''C''
                                = Inr (m, view_chunkAxes v, view_axesOrder v, nRows)
                              \<and> view_chunkIndex v = MaskedIndex m)
              \<and> prepareAccess fill v = Inr (\<not> readonly, buffer)
              \<and> arr_shape buffer = [nat nRows, nat nChan] \<and> int (nat nRows) = nRows
              \<and> (\<forall>chunks' tA c. chunkGenerator v shape = Inr (chunks', tA)
                    \<longrightarrow> Some c \<in> set chunks'
                    \<longrightarrow> 0 \<le> chunkCount c \<and> chunkCount c \<le> nRows
                        \<and> buffer_slice buffer (chunkCount c) = Inr (chunkCount c))))"
proof -
  have d: "0 \<le> chunkCount c \<and> chunkCount c \<le> nb"
    if "fullChunkIndex shape cap0 ca0 ao0 sl0 dflt = Inr (ci, a1, a2, nb)"
      "chunkIndexProduct ci a1 a2 = Inr chs" "c \<in> set chs" for ci a1 a2 nb chs c
    using dense_count_bound [OF that(1) assms that(2,3)] by simp
  have m: "0 \<le> chunkCount c \<and> chunkCount c \<le> nMax"
    if mk: "maskedChunkIndex shape cap0 mask0 ca0 ao0 sl0 dflt = Inr (mchunks, mca, mao, nMax)"
      and sc: "Some c \<in> set mchunks" for c
  proof (cases mask0)
    case None
    then obtain ci nb chunks' where
      f: "fullChunkIndex shape cap0 ca0 ao0 sl0 dflt = Inr (ci, mca, mao, nb)"
      and p: "chunkIndexProduct ci mca mao = Inr chunks'" and e: "mchunks = map Some chunks'"
      and n: "nMax = nb"
      using mk unfolding maskedChunkIndex_def by (auto simp: ebind_eq_Inr)
    have "c \<in> set chunks'" using sc e by auto
    then show ?thesis using d [OF f p, of c] n by simp
  next
    case (Some msk)
    then show ?thesis using masked_count_bound [OF mk [unfolded Some] sc] by simp
  qed
  show ?thesis
  proof (intro conjI impI ballI allI)
    fix c
    assume "fullChunkIndex shape cap0 ca0 ao0 sl0 dflt = Inr (chunkIndex, ca, ao, nBuffer)"
      "chunkIndexProduct chunkIndex ca ao = Inr chunks" "c \<in> set chunks"
    then have b: "0 \<le> chunkCount c \<and> chunkCount c \<le> nBuffer" by (rule d)
    then show "0 \<le> chunkCount c" "chunkCount c \<le> nBuffer" by simp_all
  next
    fix c
    assume "maskedChunkIndex shape cap0 mask0 ca0 ao0 sl0 dflt = Inr (mchunks, mca, mao, nMax)"
      "Some c \<in> set mchunks"
    then have b: "0 \<le> chunkCount c \<and> chunkCount c \<le> nMax" by (rule m)
    then show "0 \<le> chunkCount c" "chunkCount c \<le> nMax" by simp_all
  next
    assume "MaskedView_init shape vmask nMca0 mcaAxis0 mcaSlice0 axesOrder0 readonly = Inr v"
    then show "\<exists>nRows nChan buffer.
                view_bufferShape v = (nRows, nChan)
              \<and> (case vmask of
                   None \<Rightarrow> \<exists>d. fullChunkIndex shape nMca0
                                  (Some [case mcaAxis0 of None \<Rightarrow> - 1 | Some a \<Rightarrow> a]) axesOrder0
                                  (Some [case mcaSlice0 of None \<Rightarrow> Slice None None None | Some s \<Rightarrow> s])
                                  ''C''
                                = Inr (d, view_chunkAxes v, view_axesOrder v, nRows)
                              \<and> view_chunkIndex v = DenseIndex d
                 | Some msk \<Rightarrow> \<exists>m. maskedChunkIndex shape nMca0 (Some msk)
                                  (Some [case mcaAxis0 of None \<Rightarrow> - 1 | Some a \<Rightarrow> a]) axesOrder0
                                  (Some [case mcaSlice0 of None \<Rightarrow> Slice None None None | Some s \<Rightarrow> s])
                                  ''C''
                                = Inr (m, view_chunkAxes v, view_axesOrder v, nRows)
                              \<and> view_chunkIndex v = MaskedIndex m)
              \<and> prepareAccess fill v = Inr (\<not> readonly, buffer)
              \<and> arr_shape buffer = [nat nRows, nat nChan] \<and> int (nat nRows) = nRows
              \<and> (\<forall>chunks' tA c. chunkGenerator v shape = Inr (chunks', tA)
                    \<longrightarrow> Some c \<in> set chunks'
                    \<longrightarrow> 0 \<le> chunkCount c \<and> chunkCount c \<le> nRows
                        \<and> buffer_slice buffer (chunkCount c) = Inr (chunkCount c))"
      by (rule view_buffer_rows [OF assms])
  qed
qed

theorem buffer_slice_in_bounds_witness:
  "list_all (\<lambda>d. 0 \<le> d) [5, 2 :: int]
   \<and> fullChunkIndex [5, 2] 2 (Some [1]) None None ''C''
     = Inr ([[(Slice None None None, 2)],
       [(Slice (Some 0) (Some 2) (Some 1), 2), (Slice (Some 2) (Some 4) (Some 1), 2),
        (Slice (Some 4) (Some 5) (Some 1), 1)]], [1], [0], 2)
   \<and> chunkIndexProduct [[(Slice None None None, 2)],
       [(Slice (Some 0) (Some 2) (Some 1), 2), (Slice (Some 2) (Some 4) (Some 1), 2),
        (Slice (Some 4) (Some 5) (Some 1), 1)]] [1] [0]
     = Inr [([SliceIdx (Slice (Some 0) (Some 2) (Some 1)), SliceIdx (Slice None None None)],
        [Some 2, Some 2], 2),
       ([SliceIdx (Slice (Some 2) (Some 4) (Some 1)), SliceIdx (Slice None None None)],
        [Some 2, Some 2], 2),
       ([SliceIdx (Slice (Some 4) (Some 5) (Some 1)), SliceIdx (Slice None None None)],
        [Some 1, Some 2], 1)]
   \<and> list_all (\<lambda>c. 0 \<le> chunkCount c \<and> chunkCount c \<le> 2)
       [([SliceIdx (Slice (Some 0) (Some 2) (Some 1)), SliceIdx (Slice None None None)],
         [Some 2, Some 2], 2),
        ([SliceIdx (Slice (Some 2) (Some 4) (Some 1)), SliceIdx (Slice None None None)],
         [Some 2, Some 2], 2),
        ([SliceIdx (Slice (Some 4) (Some 5) (Some 1)), SliceIdx (Slice None None None)],
         [Some 1, Some 2], 1)]
   \<and> maskedChunkIndex [5, 2] 2 (Some (ArrayMask [5] [True, False, True, True, True])) (Some [1]) None None ''C''
     = Inr ([Some ([ListIdx [0, 2], SliceIdx (Slice None None None)], [Some 2, Some 2], 2),
       Some ([ListIdx [3, 4], SliceIdx (Slice None None None)], [Some 2, Some 2], 2)], [1], [0], 2)
   \<and> list_all (\<lambda>oc. \<exists>c. oc = Some c \<and> 0 \<le> chunkCount c \<and> chunkCount c \<le> 2)
       [Some ([ListIdx [0, 2], SliceIdx (Slice None None None)], [Some 2, Some 2], 2),
        Some ([ListIdx [3, 4], SliceIdx (Slice None None None)], [Some 2, Some 2], 2)]
   \<and> MaskedView_init [5, 2] None 2 None None None False
     = Inr \<lparr>view_chunkIndex = DenseIndex [[(Slice None None None, 2)],
              [(Slice (Some 0) (Some 2) (Some 1), 2), (Slice (Some 2) (Some 4) (Some 1), 2),
               (Slice (Some 4) (Some 5) (Some 1), 1)]],
            view_chunkAxes = [1], view_axesOrder = [0], view_masked = False,
            view_bufferShape = (2, 2), view_readonly = False\<rparr>
   \<and> prepareAccess (\<lambda>k. 0 :: int)
       \<lparr>view_chunkIndex = DenseIndex [[(Slice None None None, 2)],
              [(Slice (Some 0) (Some 2) (Some 1), 2), (Slice (Some 2) (Some 4) (Some 1), 2),
               (Slice (Some 4) (Some 5) (Some 1), 1)]],
            view_chunkAxes = [1], view_axesOrder = [0], view_masked = False,
            view_bufferShape = (2, 2), view_readonly = False\<rparr>
     = Inr (True, NDArray [2, 2] [0, 0, 0, 0])
   \<and> chunkGenerator
       \<lparr>view_chunkIndex = DenseIndex [[(Slice None None None, 2)],
              [(Slice (Some 0) (Some 2) (Some 1), 2), (Slice (Some 2) (Some 4) (Some 1), 2),
               (Slice (Some 4) (Some 5) (Some 1), 1)]],
            view_chunkAxes = [1], view_axesOrder = [0], view_masked = False,
            view_bufferShape = (2, 2), view_readonly = False\<rparr> [5, 2]
     = Inr ([Some ([SliceIdx (Slice (Some 0) (Some 2) (Some 1)), SliceIdx (Slice None None None)],
               [Some 2, Some 2], 2),
             Some ([SliceIdx (Slice (Some 2) (Some 4) (Some 1)), SliceIdx (Slice None None None)],
               [Some 2, Some 2], 2),
             Some ([SliceIdx (Slice (Some 4) (Some 5) (Some 1)), SliceIdx (Slice None None None)],
               [Some 1, Some 2], 1)], [0, 1])
   \<and> list_all (\<lambda>oc. \<exists>c. oc = Some c \<and> 0 \<le> chunkCount c \<and> chunkCount c \<le> 2
          \<and> buffer_slice (NDArray [2, 2] [0, 0, 0, 0 :: int]) (chunkCount c) = Inr (chunkCount c))
       [Some ([SliceIdx (Slice (Some 0) (Some 2) (Some 1)), SliceIdx (Slice None None None)],
          [Some 2, Some 2], 2),
        Some ([SliceIdx (Slice (Some 2) (Some 4) (Some 1)), SliceIdx (Slice None None None)],
          [Some 2, Some 2], 2),
        Some ([SliceIdx (Slice (Some 4) (Some 5) (Some 1)), SliceIdx (Slice None None None)],
          [Some 1, Some 2], 1)]"
proof -
  let ?v = "\<lparr>view_chunkIndex = DenseIndex [[(Slice None None None, 2)],
              [(Slice (Some 0) (Some 2) (Some 1), 2), (Slice (Some 2) (Some 4) (Some 1), 2),
               (Slice (Some 4) (Some 5) (Some 1), 1)]],
            view_chunkAxes = [1], view_axesOrder = [0], view_masked = False,
            view_bufferShape = (2, 2), view_readonly = False\<rparr>"
  let ?cs = "[Some ([SliceIdx (Slice (Some 0) (Some 2) (Some 1)), SliceIdx (Slice None None None)],
               [Some 2, Some 2], 2),
             Some ([SliceIdx (Slice (Some 2) (Some 4) (Some 1)), SliceIdx (Slice None None None)],
               [Some 2, Some 2], 2),
             Some ([SliceIdx (Slice (Some 4) (Some 5) (Some 1)), SliceIdx (Slice None None None)],
               [Some 1, Some 2], 1)] :: chunk option list"
  have h0: "\<forall>d\<in>set [5, 2 :: int]. 0 \<le> d" by simp
  have h1: "fullChunkIndex [5, 2] 2 (Some [1]) None None ''C''
     = Inr ([[(Slice None None None, 2)],
       [(Slice (Some 0) (Some 2) (Some 1), 2), (Slice (Some 2) (Some 4) (Some 1), 2),
        (Slice (Some 4) (Some 5) (Some 1), 1)]], [1], [0], 2)" by code_simp
  have h2: "chunkIndexProduct [[(Slice None None None, 2)],
       [(Slice (Some 0) (Some 2) (Some 1), 2), (Slice (Some 2) (Some 4) (Some 1), 2),
        (Slice (Some 4) (Some 5) (Some 1), 1)]] [1] [0]
     = Inr [([SliceIdx (Slice (Some 0) (Some 2) (Some 1)), SliceIdx (Slice None None None)],
        [Some 2, Some 2], 2),
       ([SliceIdx (Slice (Some 2) (Some 4) (Some 1)), SliceIdx (Slice None None None)],
        [Some 2, Some 2], 2),
       ([SliceIdx (Slice (Some 4) (Some 5) (Some 1)), SliceIdx (Slice None None None)],
        [Some 1, Some 2], 1)]" by code_simp
  have h3: "maskedChunkIndex [5, 2] 2 (Some (ArrayMask [5] [True, False, True, True, True])) (Some [1]) None None ''C''
     = Inr ([Some ([ListIdx [0, 2], SliceIdx (Slice None None None)], [Some 2, Some 2], 2),
       Some ([ListIdx [3, 4], SliceIdx (Slice None None None)], [Some 2, Some 2], 2)], [1], [0], 2)" by code_simp
  have h4: "MaskedView_init [5, 2] None 2 None None None False = Inr ?v" by code_simp
  have h5: "prepareAccess (\<lambda>k. 0 :: int) ?v = Inr (True, NDArray [2, 2] [0, 0, 0, 0])"
    by code_simp
  have h6: "chunkGenerator ?v [5, 2] = Inr (?cs, [0, 1])" by code_simp
  note w = buffer_slice_in_bounds [OF h0, where ?cap0.0 = 2 and ?ca0.0 = "Some [1]" and ?ao0.0 = None
      and ?sl0.0 = None and dflt = "''C''" and ca = "[1]" and ao = "[0]" and nBuffer = 2
      and ?mask0.0 = "Some (ArrayMask [5] [True, False, True, True, True])" and mca = "[1]"
      and mao = "[0]" and nMax = 2 and vmask = None and ?nMca0.0 = 2 and ?mcaAxis0.0 = None
      and ?mcaSlice0.0 = None and ?axesOrder0.0 = None and readonly = False and v = ?v
      and fill = "\<lambda>k. 0 :: int"]
  note w1 = w [THEN conjunct1, THEN mp, OF h1, THEN mp, OF h2]
  note w2 = w [THEN conjunct2, THEN conjunct1, THEN mp, OF h3]
  note w3 = w [THEN conjunct2, THEN conjunct2, THEN mp, OF h4]
  obtain nRows nChan buffer where
    pa: "prepareAccess (\<lambda>k. 0 :: int) ?v = Inr (\<not> False, buffer)"
    and bs: "view_bufferShape ?v = (nRows, nChan)"
    and ch: "\<forall>chunks' tA c. chunkGenerator ?v [5, 2] = Inr (chunks', tA)
                    \<longrightarrow> Some c \<in> set chunks'
                    \<longrightarrow> 0 \<le> chunkCount c \<and> chunkCount c \<le> nRows
                        \<and> buffer_slice buffer (chunkCount c) = Inr (chunkCount c)"
    using w3 by blast
  have b: "buffer = NDArray [2, 2] [0, 0, 0, 0]" using pa h5 by simp
  have n: "nRows = 2" using bs by simp
  have c3: "\<forall>c. Some c \<in> set ?cs \<longrightarrow> 0 \<le> chunkCount c \<and> chunkCount c \<le> 2
        \<and> buffer_slice (NDArray [2, 2] [0, 0, 0, 0 :: int]) (chunkCount c) = Inr (chunkCount c)"
    using ch [rule_format, OF h6] unfolding b n by blast
  have c3': "list_all (\<lambda>oc. \<exists>c. oc = Some c \<and> 0 \<le> chunkCount c \<and> chunkCount c \<le> 2
          \<and> buffer_slice (NDArray [2, 2] [0, 0, 0, 0 :: int]) (chunkCount c) = Inr (chunkCount c)) ?cs"
    using c3 by simp
  show ?thesis
    using w1 w2 c3' h1 h2 h3 h4 h5 h6 by simp
qed

text \<open>C2. The batching itself is as claimed for a boolean-array mask (lemma
  \<open>masked_array_batches\<close>). The docstring of \<open>maskedChunkIndex\<close> also admits a tuple
  of integer lists as mask, and the code has a branch for it, but it reads
  \<open>mask.ndim\<close> first, which a tuple or a list does not have: for such a mask the call
  raises \<open>AttributeError\<close> and no batch is produced. The same selection given as a
  boolean array is batched.\<close>

theorem masked_tuple_mask_raises:
  "maskedChunkIndex [5, 2] 2 (Some (ListMask [[0, 2, 3, 4]])) (Some [1]) None None ''C''
     = Inl AttributeError
   \<and> maskedChunkIndex [5, 2] 2 (Some (ArrayMask [5] [True, False, True, True, True]))
       (Some [1]) None None ''C''
     = Inr ([Some ([ListIdx [0, 2], SliceIdx (Slice None None None)], [Some 2, Some 2], 2),
             Some ([ListIdx [3, 4], SliceIdx (Slice None None None)], [Some 2, Some 2], 2)],
            [1], [0], 2)"
  by code_simp

text \<open>C9. A mask given as a tuple of index lists never reaches a comparison of the
  lengths of the lists: once \<open>chunkIndexParameters\<close> has accepted the other arguments,
  \<open>maskedChunkIndex\<close> reads \<open>mask.ndim\<close>, which a tuple does not have, and raises
  \<open>AttributeError\<close>, and so does the construction of a \<open>MaskedView\<close>, for lists of
  different lengths and for lists of the same length alike. The failure is at
  construction and no chunk is produced, but it is not an error about inconsistent
  data: it is the failure of every tuple mask. The loop that would go through the
  lists compares no lengths either: run on the lists \<open>[0, 1, 2]\<close> and \<open>[0]\<close>, it makes
  chunks out of them.\<close>

theorem mask_length_mismatch_attribute_error:
  "maskedChunkIndex shape cap0 (Some (ListMask ls)) ca0 ao0 sl0 dflt
     = (case chunkIndexParameters shape cap0 ca0 ao0 sl0 ''F'' of
          Inl e \<Rightarrow> Inl e | Inr p \<Rightarrow> Inl AttributeError)
   \<and> MaskedView_init shape (Some (ListMask ls)) nMca0 mcaAxis0 mcaSlice0 axesOrder0 readonly
     = (case chunkIndexParameters shape nMca0
               (Some [case mcaAxis0 of None \<Rightarrow> - 1 | Some ax \<Rightarrow> ax]) axesOrder0
               (Some [case mcaSlice0 of None \<Rightarrow> Slice None None None | Some s \<Rightarrow> s]) ''F'' of
          Inl e \<Rightarrow> Inl e | Inr p \<Rightarrow> Inl AttributeError)
   \<and> maskedChunkIndex [3, 3, 2] 2 (Some (ListMask [[0, 1, 2], [0]])) (Some [2]) None None ''C''
     = Inl AttributeError
   \<and> maskedChunkIndex [3, 3, 2] 2 (Some (ListMask [[0, 1, 2], [0, 1, 2]])) (Some [2]) None None ''C''
     = Inl AttributeError
   \<and> MaskedView_init [3, 3, 2] (Some (ListMask [[0, 1, 2], [0]])) 2 None None None False
     = Inl AttributeError
   \<and> MaskedView_init [3, 3, 2] (Some (ListMask [[0, 1, 2], [0, 1, 2]])) 2 None None None False
     = Inl AttributeError
   \<and> maskLoop [0, 1] [[0, 1, 2], [0]] (Some 0)
       (zip [0..<2] [(Slice (Some 0) (Some 2) (Some 1), 2), (Slice (Some 2) (Some 3) (Some 1), 1)])
       ([SliceIdx (Slice None None None), SliceIdx (Slice None None None),
         SliceIdx (Slice None None None)], [None, Some 2], [None, None])
     = Inr [Some ([ListIdx [0, 1], ListIdx [0], SliceIdx (Slice None None None)],
                  [Some 2, Some 2], 2),
            Some ([ListIdx [2], ListIdx [], SliceIdx (Slice None None None)],
                  [Some 1, Some 2], 1)]"
proof -
  have a: "maskedChunkIndex shape cap0 (Some (ListMask ls)) ca0 ao0 sl0 dflt
     = (case chunkIndexParameters shape cap0 ca0 ao0 sl0 ''F'' of
          Inl e \<Rightarrow> Inl e | Inr p \<Rightarrow> Inl AttributeError)"
    for shape cap0 ls ca0 ao0 sl0 dflt
    by (cases "chunkIndexParameters shape cap0 ca0 ao0 sl0 ''F''")
       (auto simp: maskedChunkIndex_def)
  have b: "MaskedView_init shape (Some (ListMask ls)) nMca0 mcaAxis0 mcaSlice0 axesOrder0 readonly
     = (case chunkIndexParameters shape nMca0
               (Some [case mcaAxis0 of None \<Rightarrow> - 1 | Some ax \<Rightarrow> ax]) axesOrder0
               (Some [case mcaSlice0 of None \<Rightarrow> Slice None None None | Some s \<Rightarrow> s]) ''F'' of
          Inl e \<Rightarrow> Inl e | Inr p \<Rightarrow> Inl AttributeError)"
    unfolding MaskedView_init_def Let_def a
    by (cases "chunkIndexParameters shape nMca0
               (Some [case mcaAxis0 of None \<Rightarrow> - 1 | Some ax \<Rightarrow> ax]) axesOrder0
               (Some [case mcaSlice0 of None \<Rightarrow> Slice None None None | Some s \<Rightarrow> s]) ''F''")
       simp_all
  have c: "maskedChunkIndex [3, 3, 2] 2 (Some (ListMask [[0, 1, 2], [0]])) (Some [2]) None None ''C''
     = Inl AttributeError" by code_simp
  have d: "maskedChunkIndex [3, 3, 2] 2 (Some (ListMask [[0, 1, 2], [0, 1, 2]])) (Some [2]) None None ''C''
     = Inl AttributeError" by code_simp
  have e: "MaskedView_init [3, 3, 2] (Some (ListMask [[0, 1, 2], [0]])) 2 None None None False
     = Inl AttributeError" by code_simp
  have f: "MaskedView_init [3, 3, 2] (Some (ListMask [[0, 1, 2], [0, 1, 2]])) 2 None None None False
     = Inl AttributeError" by code_simp
  have g: "maskLoop [0, 1] [[0, 1, 2], [0]] (Some 0)
       (zip [0..<2] [(Slice (Some 0) (Some 2) (Some 1), 2), (Slice (Some 2) (Some 3) (Some 1), 1)])
       ([SliceIdx (Slice None None None), SliceIdx (Slice None None None),
         SliceIdx (Slice None None None)], [None, Some 2], [None, None])
     = Inr [Some ([ListIdx [0, 1], ListIdx [0], SliceIdx (Slice None None None)],
                  [Some 2, Some 2], 2),
            Some ([ListIdx [2], ListIdx [], SliceIdx (Slice None None None)],
                  [Some 1, Some 2], 1)]" by code_simp
  show ?thesis by (intro conjI a b c d e f g)
qed

text \<open>C8. When the memory query gives \<open>None\<close>, \<open>chunks_in_memory\<close> returns \<open>maximal\<close>
  whatever its other arguments are, before anything that could raise. When the memory
  is known and \<open>axis\<close> is one integer, it divides by the bytes of all the other
  dimensions (lemma \<open>chunks_in_memory_single_axis\<close>): for the shape \<open>(2, 3, 4)\<close>, elements
  of 8 bytes and the last axis that is \<open>2 * 3 * 8 = 48\<close> bytes. For a tuple of axes
  the loop pops the axes one after the other from the list that the earlier pops have
  already shortened, so an axis after a smaller one is taken one place too far:
  \<open>axis = (0, 1)\<close> leaves \<open>[3]\<close> and divides by 24 bytes, where the dimension outside
  the two axes has 4 elements and 32 bytes, which is what \<open>axis = (1, 0)\<close> gives; and
  \<open>axis = (0, 2)\<close> raises \<open>IndexError\<close>.\<close>

theorem chunks_in_memory_tuple_axis:
  "chunks_in_memory None quot shape itemsize axis maximal = Inr maximal
   \<and> chunks_in_memory (Some mem) quot [2, 3, 4] 8 (AxisInt (- 1)) None
       = ebind (quot mem 48) (\<lambda>n. Inr (Some n))
   \<and> chunks_in_memory (Some mem) quot [2, 3, 4] 8 (AxisInt (- 1)) (Some 5)
       = ebind (quot mem 48) (\<lambda>n. Inr (Some (max n 5)))
   \<and> chunks_in_memory (Some mem) quot [2, 3, 4] 8 (AxisSeq [1, 0]) None
       = ebind (quot mem 32) (\<lambda>n. Inr (Some n))
   \<and> chunks_in_memory (Some mem) quot [2, 3, 4] 8 (AxisSeq [0, 1]) None
       = ebind (quot mem 24) (\<lambda>n. Inr (Some n))
   \<and> chunks_in_memory (Some mem) quot [2, 3, 4] 8 (AxisSeq [0, 2]) None = Inl IndexError"
  by (simp add: chunks_in_memory_def py_pop_def wrap64_def Let_def)

end
